theory Spec2Isabelle
  imports Complex_Main "HOL-Library.Stream"
begin

section \<open>Glauber dynamics of the Ising model (packages/glauber.py)\<close>

text \<open>
  The class \<open>Glauber\<close> of \<open>packages/glauber.py\<close>, embedded as functions on an explicit
  state. The state holds the attributes of the object and the two pieces of the process
  the methods act on: the global generator of \<open>np.random\<close>, as the infinite sequence of
  its raw draws, and the calls made to the collaborators that render or persist
  (matplotlib, \<open>write_data\<close>). \<open>print\<close> only reports progress and is left out; so are
  \<open>warning_message\<close> and \<open>check_sim\<close> of the base class, taken to change nothing of this
  state. Floats are idealised as rationals.
\<close>

subsection \<open>Errors and results\<close>

datatype error = InvalidParameter | ValueError | IndexError | TypeError

fun and_then :: "error + 'a \<Rightarrow> ('a \<Rightarrow> error + 'b) \<Rightarrow> error + 'b" where
  "and_then (Inl e) f = Inl e"
| "and_then (Inr x) f = f x"

text \<open>A \<open>for\<close> loop over a sequence; an exception raised by the body leaves the loop.\<close>

fun for_each :: "'a list \<Rightarrow> ('a \<Rightarrow> 's \<Rightarrow> error + 's) \<Rightarrow> 's \<Rightarrow> error + 's" where
  "for_each [] body s = Inr s"
| "for_each (x # xs) body s = and_then (body x s) (for_each xs body)"

text \<open>Python's \<open>range(n)\<close>: empty when \<open>n \<le> 0\<close>.\<close>

definition py_range :: "int \<Rightarrow> nat list" where
  "py_range n = [0..<nat n]"

subsection \<open>Data\<close>

type_synonym rng = "nat stream"
type_synonym lattice = "int list list"

text \<open>\<open>self.tempurature\<close> is the scalar given at construction or the array of a full run.\<close>

datatype temperature = Scalar rat | Schedule "rat list"

text \<open>
  A call to a collaborator. \<open>Data_written\<close> is \<open>write_data(avg_qauntities,
  file_parameters, sim_info)\<close>: the records, the parameters \<open>["Glauber", dimensions,
  timesteps]\<close> and the two numbers put into the header line.
\<close>

datatype 'o effect =
    Figure_created lattice
  | Animation_started
  | Frame_drawn lattice
  | Data_written "(rat \<times> 'o \<times> 'o) list" "string \<times> int \<times> int" "int \<times> int"

text \<open>
  A record of \<open>avg_qauntities\<close> is the line \<open>"{},{},{}".format(str(temp), str(energy),
  str(mag))\<close>, kept as the triple of the three values.
\<close>

record 'o glauber =
  dimensions :: int
  timesteps :: int
  tempurature :: temperature
  sim_type :: string
  cells :: lattice
  avg_qauntities :: "(rat \<times> 'o \<times> 'o) list"
  np_random :: rng
  effects :: "'o effect list"

text \<open>
  The module \<open>tools.utils.sim_utils\<close> lies outside the sources verified here: its five
  functions are parameters of the model.
\<close>

record ('e, 'o) sim_utils =
  determine_energy_change :: "int \<Rightarrow> int list \<Rightarrow> 'e"
  determine_flip_state :: "'e \<Rightarrow> temperature \<Rightarrow> rng \<Rightarrow> bool \<times> rng"
  flip_array_state :: "int \<Rightarrow> int"
  calculate_total_energy :: "lattice \<Rightarrow> 'o"
  calculate_total_mag :: "lattice \<Rightarrow> 'o"

subsection \<open>numpy\<close>

text \<open>\<open>np.random.randint(0, high)\<close>: a draw in \<open>[0, high)\<close>, ValueError when \<open>high \<le> 0\<close>.\<close>

definition np_random_randint :: "int \<Rightarrow> rng \<Rightarrow> error + (nat \<times> rng)" where
  "np_random_randint high g =
     (if high \<le> 0 then Inl ValueError else Inr (shd g mod nat high, stl g))"

text \<open>
  \<open>np.random.choice(a, size=(rows, cols))\<close>: one draw per cell, row by row; ValueError
  on a negative dimension.
\<close>

definition np_random_choice :: "int list \<Rightarrow> int \<Rightarrow> int \<Rightarrow> rng \<Rightarrow> error + (lattice \<times> rng)" where
  "np_random_choice a rows cols g =
     (if rows < 0 \<or> cols < 0 then Inl ValueError
      else let m = nat rows; n = nat cols;
               flat = map (\<lambda>k. a ! (k mod length a)) (stake (m * n) g)
           in Inr (map (\<lambda>r. take n (drop (r * n) flat)) [0..<m], sdrop (m * n) g))"

text \<open>\<open>np.arange(start, stop, step)\<close>: \<open>ceil((stop - start) / step)\<close> values \<open>start + i * step\<close>.\<close>

definition np_arange :: "rat \<Rightarrow> rat \<Rightarrow> rat \<Rightarrow> rat list" where
  "np_arange start stop step =
     map (\<lambda>i. start + of_nat i * step) [0..<nat \<lceil>(stop - start) / step\<rceil>]"

text \<open>Indexing \<open>cells[row, col]\<close> with indices that are not negative.\<close>

definition in_lattice :: "lattice \<Rightarrow> nat \<Rightarrow> nat \<Rightarrow> bool" where
  "in_lattice cs row col = (row < length cs \<and> col < length (cs ! row))"

definition lattice_get :: "lattice \<Rightarrow> nat \<Rightarrow> nat \<Rightarrow> error + int" where
  "lattice_get cs row col = (if in_lattice cs row col then Inr (cs ! row ! col) else Inl IndexError)"

definition lattice_set :: "lattice \<Rightarrow> nat \<Rightarrow> nat \<Rightarrow> int \<Rightarrow> lattice" where
  "lattice_set cs row col v = cs[row := (cs ! row)[col := v]]"

text \<open>\<open>str.lower()\<close> on the letters A to Z; the other characters of a byte string stay.\<close>

definition char_lower :: "char \<Rightarrow> char" where
  "char_lower c =
     (case map_of (zip ''ABCDEFGHIJKLMNOPQRSTUVWXYZ'' ''abcdefghijklmnopqrstuvwxyz'') c of
        None \<Rightarrow> c
      | Some l \<Rightarrow> l)"

definition py_lower :: "string \<Rightarrow> string" where
  "py_lower s = map char_lower s"

subsection \<open>The base class SimulationPlane\<close>

text \<open>
  Modelled from the spec: the constructor of \<open>SimulationPlane\<close>
  (\<open>packages/controller.py\<close>, outside the sources verified here). Section 7: invalid
  dimensions or timesteps (\<open>\<le> 0\<close>) fail fast at construction with an InvalidParameter
  error; otherwise the two parameters are stored.
\<close>

definition SimulationPlane_init :: "int \<Rightarrow> int \<Rightarrow> error + (int \<times> int)" where
  "SimulationPlane_init dims steps =
     (if dims \<le> 0 \<or> steps \<le> 0 then Inl InvalidParameter else Inr (dims, steps))"

text \<open>
  Modelled from the spec: \<open>SimulationPlane.check_nieghbours\<close> (outside the sources
  verified here), which returns the spin of a site and those of its neighbours. Section 4.1: the 4
  nearest neighbours with periodic wrap, \<open>(row-1 mod N, col)\<close>, \<open>(row+1 mod N, col)\<close>,
  \<open>(row, col-1 mod N)\<close>, \<open>(row, col+1 mod N)\<close>.
\<close>

definition SimulationPlane_check_nieghbours :: "'o glauber \<Rightarrow> nat \<times> nat \<Rightarrow> error + (int \<times> int list)" where
  "SimulationPlane_check_nieghbours s coordinate =
     (case coordinate of (row, col) \<Rightarrow>
        let N = nat (dimensions s); cs = cells s;
            sites = [((row + N - 1) mod N, col), ((row + 1) mod N, col),
                     (row, (col + N - 1) mod N), (row, (col + 1) mod N)]
        in if in_lattice cs row col \<and> list_all (\<lambda>(a, b). in_lattice cs a b) sites
           then Inr (cs ! row ! col, map (\<lambda>(a, b). cs ! a ! b) sites)
           else Inl IndexError)"

subsection \<open>The class Glauber\<close>

definition Glauber_init :: "int \<Rightarrow> int \<Rightarrow> string \<Rightarrow> temperature \<Rightarrow> rng \<Rightarrow> error + 'o glauber" where
  "Glauber_init dims steps mode temp g =
     and_then (SimulationPlane_init dims steps) (\<lambda>(d, t).
       Inr \<lparr>dimensions = d, timesteps = t, tempurature = temp, sim_type = mode,
            cells = [], avg_qauntities = [], np_random = g, effects = []\<rparr>)"

definition create_cells :: "'o glauber \<Rightarrow> error + 'o glauber" where
  "create_cells s =
     and_then (np_random_choice [1, - 1] (dimensions s) (dimensions s) (np_random s)) (\<lambda>(cs, g).
       Inr (s\<lparr>cells := cs, np_random := g\<rparr>))"

definition create_figure :: "'o glauber \<Rightarrow> 'o glauber" where
  "create_figure s = s\<lparr>effects := effects s @ [Figure_created (cells s)]\<rparr>"

definition check_nieghbours :: "('e, 'o) sim_utils \<Rightarrow> 'o glauber \<Rightarrow> nat \<times> nat \<Rightarrow> error + 'e" where
  "check_nieghbours U s coordinate =
     and_then (SimulationPlane_check_nieghbours s coordinate) (\<lambda>(member, nieghbours).
       Inr (determine_energy_change U member nieghbours))"

text \<open>
  Lines 89 to 93 of \<open>glauber_procedure\<close>: the site drawn, the decision taken and the
  generator after them.
\<close>

definition glauber_choice ::
  "('e, 'o) sim_utils \<Rightarrow> temperature \<Rightarrow> 'o glauber \<Rightarrow> error + (nat \<times> nat \<times> bool \<times> rng)" where
  "glauber_choice U temp s =
     and_then (np_random_randint (dimensions s) (np_random s)) (\<lambda>(random_row, g1).
     and_then (np_random_randint (dimensions s) g1) (\<lambda>(random_col, g2).
     and_then (check_nieghbours U s (random_row, random_col)) (\<lambda>energy_change.
       case determine_flip_state U energy_change temp g2 of (outcome, g3) \<Rightarrow>
         Inr (random_row, random_col, outcome, g3))))"

text \<open>Lines 94 to 96: the flip, when the decision is to flip.\<close>

definition glauber_procedure :: "('e, 'o) sim_utils \<Rightarrow> temperature \<Rightarrow> 'o glauber \<Rightarrow> error + 'o glauber" where
  "glauber_procedure U temp s =
     and_then (glauber_choice U temp s) (\<lambda>(random_row, random_col, outcome, g).
       if outcome
       then and_then (lattice_get (cells s) random_row random_col) (\<lambda>v.
              Inr (s\<lparr>cells := lattice_set (cells s) random_row random_col (flip_array_state U v),
                     np_random := g\<rparr>))
       else Inr (s\<lparr>np_random := g\<rparr>))"

text \<open>The loop \<open>for j in range(self.dimensions ** 2): self.glauber_procedure(temp)\<close>.\<close>

definition sweep :: "('e, 'o) sim_utils \<Rightarrow> temperature \<Rightarrow> 'o glauber \<Rightarrow> error + 'o glauber" where
  "sweep U temp s = for_each (py_range (dimensions s ^ 2)) (\<lambda>j. glauber_procedure U temp) s"

definition observable :: "('e, 'o) sim_utils \<Rightarrow> rat \<Rightarrow> lattice \<Rightarrow> rat \<times> 'o \<times> 'o" where
  "observable U temp cs = (temp, calculate_total_energy U cs, calculate_total_mag U cs)"

definition calculate_averages :: "('e, 'o) sim_utils \<Rightarrow> rat \<Rightarrow> 'o glauber \<Rightarrow> 'o glauber" where
  "calculate_averages U temp s =
     s\<lparr>avg_qauntities := avg_qauntities s @ [observable U temp (cells s)]\<rparr>"

text \<open>The test of line 67.\<close>

definition sample_due :: "nat \<Rightarrow> bool" where
  "sample_due i = (99 \<le> i \<and> i mod 10 = 0)"

text \<open>The body of the loop over the sweeps, lines 63 to 68.\<close>

definition sweep_step :: "('e, 'o) sim_utils \<Rightarrow> rat \<Rightarrow> nat \<Rightarrow> 'o glauber \<Rightarrow> error + 'o glauber" where
  "sweep_step U temp i s =
     and_then (sweep U (Scalar temp) s) (\<lambda>s'.
       Inr (if sample_due i then calculate_averages U temp s' else s'))"

text \<open>The body of the loop over the temperatures, lines 60 to 68.\<close>

definition temperature_block :: "('e, 'o) sim_utils \<Rightarrow> rat \<Rightarrow> 'o glauber \<Rightarrow> error + 'o glauber" where
  "temperature_block U temp s =
     and_then (create_cells s) (\<lambda>s'. for_each (py_range (timesteps s')) (sweep_step U temp) s')"

definition finished_sim :: "'o glauber \<Rightarrow> 'o glauber" where
  "finished_sim s =
     s\<lparr>effects := effects s @
        [Data_written (avg_qauntities s) (''Glauber'', dimensions s, timesteps s)
           (dimensions s ^ 2, timesteps s)]\<rparr>"

text \<open>Iterating over a scalar temperature raises TypeError.\<close>

definition start_full_sim :: "('e, 'o) sim_utils \<Rightarrow> 'o glauber \<Rightarrow> error + 'o glauber" where
  "start_full_sim U s =
     (let s1 = s\<lparr>avg_qauntities := []\<rparr>
      in case tempurature s1 of
           Scalar t \<Rightarrow> Inl TypeError
         | Schedule temps \<Rightarrow>
             and_then (for_each temps (temperature_block U) s1) (\<lambda>s2. Inr (finished_sim s2)))"

text \<open>
  \<open>super().start_sim()\<close> hands control to the animation, which calls \<open>anim_func\<close> once
  per frame.
\<close>

definition start_sim :: "('e, 'o) sim_utils \<Rightarrow> 'o glauber \<Rightarrow> error + 'o glauber" where
  "start_sim U s =
     (if py_lower (sim_type s) = ''visual''
      then and_then (create_cells s) (\<lambda>s1.
             let s2 = create_figure s1 in Inr (s2\<lparr>effects := effects s2 @ [Animation_started]\<rparr>))
      else start_full_sim U (s\<lparr>tempurature := Schedule (np_arange 1 3 (1 / 10))\<rparr>))"

definition anim_func :: "('e, 'o) sim_utils \<Rightarrow> 'o glauber \<Rightarrow> error + 'o glauber" where
  "anim_func U s =
     and_then (sweep U (tempurature s) s) (\<lambda>s'.
       Inr (s'\<lparr>effects := effects s' @ [Frame_drawn (cells s')]\<rparr>))"

subsection \<open>Predicates used in the statements\<close>

text \<open>The lattice is an array of \<open>dimensions\<close> rows of \<open>dimensions\<close> cells.\<close>

definition well_formed :: "'o glauber \<Rightarrow> bool" where
  "well_formed s =
     (0 \<le> dimensions s \<and> length (cells s) = nat (dimensions s) \<and>
      list_all (\<lambda>row. length row = nat (dimensions s)) (cells s))"

text \<open>Every cell holds a spin, \<open>+1\<close> or \<open>-1\<close>.\<close>

definition spins_ok :: "lattice \<Rightarrow> bool" where
  "spins_ok cs = list_all (list_all (\<lambda>v. v = 1 \<or> v = - 1)) cs"

text \<open>
  The lattice after the sweeps \<open>0, ..., i\<close> of the loop over the sweeps, started in \<open>s\<close>.
\<close>

definition cells_after_sweep :: "('e, 'o) sim_utils \<Rightarrow> rat \<Rightarrow> 'o glauber \<Rightarrow> nat \<Rightarrow> lattice" where
  "cells_after_sweep U temp s i =
     (case for_each [0..<Suc i] (sweep_step U temp) s of Inr t \<Rightarrow> cells t | Inl e \<Rightarrow> [])"

text \<open>Two states agree on everything but the lattice and the generator.\<close>

definition same_object :: "'o glauber \<Rightarrow> 'o glauber \<Rightarrow> bool" where
  "same_object s t =
     (dimensions t = dimensions s \<and> timesteps t = timesteps s \<and> tempurature t = tempurature s \<and>
      sim_type t = sim_type s \<and> avg_qauntities t = avg_qauntities s \<and> effects t = effects s)"

text \<open>Two states agree on the parameters of the object and on the calls made so far.\<close>

definition same_params :: "'o glauber \<Rightarrow> 'o glauber \<Rightarrow> bool" where
  "same_params s t =
     (dimensions t = dimensions s \<and> timesteps t = timesteps s \<and> tempurature t = tempurature s \<and>
      sim_type t = sim_type s \<and> effects t = effects s)"

text \<open>An updater with a counter of its calls beside the state.\<close>

definition counted :: "('s \<Rightarrow> error + 's) \<Rightarrow> 's \<times> nat \<Rightarrow> error + ('s \<times> nat)" where
  "counted f = (\<lambda>(s, n). and_then (f s) (\<lambda>s'. Inr (s', Suc n)))"

text \<open>
  One update attempt, from \<open>s\<close> to \<open>s'\<close>: the row and the column are the next two draws
  of the generator reduced into the lattice, the decision is taken on the generator
  after these two draws, and \<open>s'\<close> is \<open>s\<close> with the generator the decision returns and,
  when the flip is accepted, the flipped spin at the site.
\<close>

definition update_attempt :: "('e, 'o) sim_utils \<Rightarrow> temperature \<Rightarrow> 'o glauber \<Rightarrow> 'o glauber \<Rightarrow> bool" where
  "update_attempt U temp s s' =
     (\<exists>row col energy_change outcome g.
        row = shd (np_random s) mod nat (dimensions s) \<and>
        col = shd (stl (np_random s)) mod nat (dimensions s) \<and>
        row < nat (dimensions s) \<and> col < nat (dimensions s) \<and>
        check_nieghbours U s (row, col) = Inr energy_change \<and>
        determine_flip_state U energy_change temp (stl (stl (np_random s))) = (outcome, g) \<and>
        glauber_procedure U temp s = Inr s' \<and>
        s' =
          (if outcome
           then s\<lparr>cells := lattice_set (cells s) row col (flip_array_state U (cells s ! row ! col)),
                  np_random := g\<rparr>
           else s\<lparr>np_random := g\<rparr>))"

text \<open>A sequence of states, each obtained from the one before by one update attempt.\<close>

definition successive_attempts :: "('e, 'o) sim_utils \<Rightarrow> temperature \<Rightarrow> 'o glauber list \<Rightarrow> bool" where
  "successive_attempts U temp ss =
     (\<forall>k. Suc k < length ss \<longrightarrow> update_attempt U temp (ss ! k) (ss ! Suc k))"

text \<open>
  The states the lattice can be in: after \<open>create_cells\<close>, and after any number of
  update attempts from there.
\<close>

inductive reachable :: "('e, 'o) sim_utils \<Rightarrow> 'o glauber \<Rightarrow> bool" for U :: "('e, 'o) sim_utils" where
  initialised: "create_cells s = Inr s' \<Longrightarrow> reachable U s'"
| attempted: "reachable U s \<Longrightarrow> glauber_procedure U temp s = Inr s' \<Longrightarrow> reachable U s'"

text \<open>
  Two states that a run cannot tell apart at its start: the same sizes, generator and
  records; and two states that moreover hold the same lattice.
\<close>

definition same_inputs :: "'o glauber \<Rightarrow> 'o glauber \<Rightarrow> bool" where
  "same_inputs s t =
     (dimensions s = dimensions t \<and> timesteps s = timesteps t \<and> np_random s = np_random t \<and>
      avg_qauntities s = avg_qauntities t)"

definition in_step :: "'o glauber \<Rightarrow> 'o glauber \<Rightarrow> bool" where
  "in_step s t = (same_inputs s t \<and> cells s = cells t)"

subsection \<open>A concrete instance, for the examples\<close>

text \<open>
  An instance of the module \<open>sim_utils\<close>, after sections 4.2, 4.4 and 4.7 of the spec:
  the energy change \<open>2 s \<Sum> neighbours\<close>, the flip as negation, the energy with every bond
  counted once and the magnetisation as the sum of the spins. Its decision is that of the
  limit of low temperature: flip when the energy falls, and let a draw decide when it
  stays.
\<close>

definition demo_utils :: "(int, int) sim_utils" where
  "demo_utils =
     \<lparr>determine_energy_change = (\<lambda>member nieghbours. 2 * member * sum_list nieghbours),
      determine_flip_state = (\<lambda>energy_change temp g.
        (energy_change < 0 \<or> (energy_change = 0 \<and> even (shd g)), stl g)),
      flip_array_state = uminus,
      calculate_total_energy = (\<lambda>cs.
        - sum_list (map (\<lambda>r. sum_list (map (\<lambda>c.
            cs ! r ! c * (cs ! ((r + 1) mod length cs) ! c + cs ! r ! ((c + 1) mod length cs)))
            [0..<length cs])) [0..<length cs])),
      calculate_total_mag = (\<lambda>cs. sum_list (map sum_list cs))\<rparr>"

text \<open>An object as constructed, with the generator drawing \<open>0, 1, 2, ...\<close>.\<close>

definition demo_sim :: "int \<Rightarrow> int \<Rightarrow> string \<Rightarrow> int glauber" where
  "demo_sim dims steps mode =
     \<lparr>dimensions = dims, timesteps = steps, tempurature = Scalar 2, sim_type = mode,
      cells = [], avg_qauntities = [], np_random = siterate Suc 0, effects = []\<rparr>"

text \<open>A lattice of three by three spins, with a generator that always draws 4.\<close>

definition demo_lattice :: "int glauber" where
  "demo_lattice =
     \<lparr>dimensions = 3, timesteps = 10, tempurature = Scalar 2, sim_type = ''visual'',
      cells = [[1, - 1, 1], [1, 1, - 1], [- 1, 1, 1]], avg_qauntities = [],
      np_random = sconst 4, effects = []\<rparr>"

section \<open>Properties\<close>

subsection \<open>Results and loops\<close>

lemma and_then_Inr: "and_then r f = Inr y \<longleftrightarrow> (\<exists>x. r = Inr x \<and> f x = Inr y)"
  by (cases r) auto

lemma for_each_append:
  "for_each (xs @ ys) body s = and_then (for_each xs body s) (for_each ys body)"
proof (induction xs arbitrary: s)
  case Nil
  show ?case by simp
next
  case (Cons x xs)
  show ?case by (cases "body x s") (simp_all add: Cons.IH)
qed

lemma for_each_invariant:
  assumes "for_each xs body s = Inr s'" and "P s"
    and "\<And>x t t'. P t \<Longrightarrow> body x t = Inr t' \<Longrightarrow> P t'"
  shows "P s'"
  using assms(1,2)
proof (induction xs arbitrary: s)
  case Nil
  then show ?case by simp
next
  case (Cons x xs)
  from Cons.prems(1) obtain t where t: "body x s = Inr t" "for_each xs body t = Inr s'"
    by (auto simp: and_then_Inr)
  from assms(3)[OF Cons.prems(2) t(1)] have "P t" .
  with Cons.IH t(2) show ?case by blast
qed

lemma for_each_total:
  assumes "P s" and "\<And>x t. P t \<Longrightarrow> \<exists>t'. body x t = Inr t' \<and> P t'"
  shows "\<exists>s'. for_each xs body s = Inr s' \<and> P s'"
  using assms(1)
proof (induction xs arbitrary: s)
  case Nil
  then show ?case by simp
next
  case (Cons x xs)
  from assms(2)[OF Cons.prems] obtain t where t: "body x s = Inr t" "P t" by blast
  from Cons.IH[OF t(2)] show ?case by (simp add: t(1))
qed

subsection \<open>The lattice\<close>

lemma chunk_length:
  assumes "length xs = m * n" and "r < m"
  shows "length (take n (drop (r * n) xs)) = n"
proof -
  have "Suc r \<le> m" using assms(2) by simp
  then have "Suc r * n \<le> m * n" by (rule mult_le_mono1)
  then have "n \<le> m * n - r * n" by simp
  then show ?thesis by (simp add: assms(1))
qed

lemma np_random_choice_shape:
  assumes "np_random_choice a d d g = Inr (cs, g')"
  shows "0 \<le> d \<and> length cs = nat d \<and> list_all (\<lambda>row. length row = nat d) cs"
proof -
  have d: "0 \<le> d" using assms by (auto simp: np_random_choice_def split: if_splits)
  define flat where "flat = map (\<lambda>k. a ! (k mod length a)) (stake (nat d * nat d) g)"
  have cs: "cs = map (\<lambda>r. take (nat d) (drop (r * nat d) flat)) [0..<nat d]"
    using assms d by (simp add: np_random_choice_def Let_def flat_def)
  have len: "length flat = nat d * nat d" by (simp add: flat_def)
  show ?thesis using d chunk_length[OF len]
    by (simp add: cs list_all_iff)
qed

lemma spin_choice: "[1, - 1 :: int] ! (k mod Suc (Suc 0)) = 1 \<or> [1, - 1 :: int] ! (k mod Suc (Suc 0)) = - 1"
proof -
  have "k mod Suc (Suc 0) = 0 \<or> k mod Suc (Suc 0) = Suc 0" by arith
  then show ?thesis by auto
qed

lemma np_random_choice_spins:
  assumes "np_random_choice [1, - 1] r c g = Inr (cs, g')"
  shows "spins_ok cs"
proof -
  define flat where "flat = map (\<lambda>k. [1, - 1 :: int] ! (k mod Suc (Suc 0))) (stake (nat r * nat c) g)"
  have cs: "cs = map (\<lambda>i. take (nat c) (drop (i * nat c) flat)) [0..<nat r]"
    using assms by (simp add: np_random_choice_def Let_def flat_def split: if_splits)
  have flat: "v = 1 \<or> v = - 1" if "v \<in> set flat" for v
    using that spin_choice by (auto simp: flat_def)
  have "v = 1 \<or> v = - 1" if "v \<in> set (take (nat c) (drop (i * nat c) flat))" for v i
    using that flat by (blast dest: in_set_takeD in_set_dropD)
  then show ?thesis
    unfolding spins_ok_def cs list_all_iff by auto
qed


lemma in_lattice_well_formed:
  assumes "well_formed s" and "r < nat (dimensions s)" and "c < nat (dimensions s)"
  shows "in_lattice (cells s) r c"
  using assms by (simp add: well_formed_def in_lattice_def list_all_length)

lemma lattice_set_length: "length (lattice_set cs r c v) = length cs"
  by (simp add: lattice_set_def)

lemma lattice_set_nth:
  assumes "in_lattice cs r c"
  shows "lattice_set cs r c v ! a ! b = (if a = r \<and> b = c then v else cs ! a ! b)"
proof (cases "a = r")
  case True
  with assms show ?thesis
    by (cases "b = c") (simp_all add: lattice_set_def in_lattice_def)
next
  case False
  then show ?thesis by (simp add: lattice_set_def)
qed

lemma lattice_set_rows:
  assumes "list_all P cs" and "r < length cs \<Longrightarrow> P ((cs ! r)[c := v])"
  shows "list_all P (lattice_set cs r c v)"
proof -
  have "P (lattice_set cs r c v ! i)" if "i < length cs" for i
    using that assms by (cases "i = r") (simp_all add: lattice_set_def list_all_length)
  then show ?thesis by (simp add: list_all_length lattice_set_length)
qed

subsection \<open>One update attempt\<close>

lemma glauber_choice_site:
  assumes "glauber_choice U temp s = Inr (row, col, outcome, g)"
  shows "0 < dimensions s" and "row = shd (np_random s) mod nat (dimensions s)"
    and "col = shd (stl (np_random s)) mod nat (dimensions s)"
    and "row < nat (dimensions s)" and "col < nat (dimensions s)"
    and "in_lattice (cells s) row col"
  using assms
  by (auto simp: glauber_choice_def np_random_randint_def check_nieghbours_def
      SimulationPlane_check_nieghbours_def and_then_Inr Let_def split: if_splits prod.splits)

lemma glauber_choice_total:
  assumes "well_formed s" and "0 < dimensions s"
  shows "\<exists>row col outcome g. glauber_choice U temp s = Inr (row, col, outcome, g)"
proof -
  define N where "N = nat (dimensions s)"
  have N: "0 < N" using assms(2) by (simp add: N_def)
  have inl: "in_lattice (cells s) (a mod N) (b mod N)" for a b
    using in_lattice_well_formed[OF assms(1)] N by (simp add: N_def)
  define row where "row = shd (np_random s) mod N"
  define col where "col = shd (stl (np_random s)) mod N"
  have "in_lattice (cells s) row col" "in_lattice (cells s) ((row + N - 1) mod N) col"
    "in_lattice (cells s) ((row + 1) mod N) col" "in_lattice (cells s) row ((col + N - 1) mod N)"
    "in_lattice (cells s) row ((col + 1) mod N)"
    using inl[of "shd (np_random s)" "shd (stl (np_random s))"]
      inl[of "row + N - 1" "shd (stl (np_random s))"] inl[of "row + 1" "shd (stl (np_random s))"]
      inl[of "shd (np_random s)" "col + N - 1"] inl[of "shd (np_random s)" "col + 1"]
    by (simp_all add: row_def col_def)
  then have "\<exists>m ns. SimulationPlane_check_nieghbours s (row, col) = Inr (m, ns)"
    by (simp add: SimulationPlane_check_nieghbours_def Let_def N_def)
  then show ?thesis using assms(2)
    by (auto simp: glauber_choice_def np_random_randint_def check_nieghbours_def
        row_def col_def N_def split: prod.splits)
qed

lemma glauber_procedure_result:
  assumes "glauber_procedure U temp s = Inr s'"
  shows "\<exists>row col outcome g.
           glauber_choice U temp s = Inr (row, col, outcome, g) \<and>
           s' = (if outcome
                 then s\<lparr>cells := lattice_set (cells s) row col (flip_array_state U (cells s ! row ! col)),
                        np_random := g\<rparr>
                 else s\<lparr>np_random := g\<rparr>)"
proof -
  from assms obtain row col outcome g where
    c: "glauber_choice U temp s = Inr (row, col, outcome, g)"
    unfolding glauber_procedure_def by (cases "glauber_choice U temp s") auto
  have inl: "in_lattice (cells s) row col" by (rule glauber_choice_site(6)[OF c])
  have "s' = (if outcome
                 then s\<lparr>cells := lattice_set (cells s) row col (flip_array_state U (cells s ! row ! col)),
                        np_random := g\<rparr>
                 else s\<lparr>np_random := g\<rparr>)"
    using assms inl by (cases outcome) (simp_all add: glauber_procedure_def c lattice_get_def)
  with c show ?thesis by blast
qed

lemma glauber_procedure_total:
  assumes "well_formed s" and "0 < dimensions s"
  shows "\<exists>s'. glauber_procedure U temp s = Inr s'"
proof -
  from glauber_choice_total[OF assms] obtain row col outcome g
    where c: "glauber_choice U temp s = Inr (row, col, outcome, g)" by blast
  from glauber_choice_site(6)[OF c] show ?thesis
    by (simp add: glauber_procedure_def c lattice_get_def)
qed

lemma glauber_procedure_frame:
  assumes "glauber_procedure U temp s = Inr s'"
  shows "dimensions s' = dimensions s" and "timesteps s' = timesteps s"
    and "tempurature s' = tempurature s" and "sim_type s' = sim_type s"
    and "avg_qauntities s' = avg_qauntities s" and "effects s' = effects s"
  using glauber_procedure_result[OF assms] by (auto split: if_splits)

lemma glauber_procedure_well_formed:
  assumes "glauber_procedure U temp s = Inr s'" and "well_formed s"
  shows "well_formed s'"
proof -
  from glauber_procedure_result[OF assms(1)] obtain row col outcome g where
    s': "s' = (if outcome
                 then s\<lparr>cells := lattice_set (cells s) row col (flip_array_state U (cells s ! row ! col)),
                        np_random := g\<rparr>
                 else s\<lparr>np_random := g\<rparr>)" by blast
  have "list_all (\<lambda>r. length r = nat (dimensions s)) (lattice_set (cells s) row col v)" for v
    using assms(2) by (intro lattice_set_rows) (simp_all add: well_formed_def list_all_length)
  then show ?thesis using assms(2)
    by (simp add: s' well_formed_def lattice_set_length)
qed

lemma glauber_procedure_spins:
  assumes "glauber_procedure U temp s = Inr s'" and "spins_ok (cells s)"
    and "\<And>v. flip_array_state U v = - v"
  shows "spins_ok (cells s')"
proof -
  from glauber_procedure_result[OF assms(1)] obtain row col outcome g where
    c: "glauber_choice U temp s = Inr (row, col, outcome, g)" and
    s': "s' = (if outcome
                 then s\<lparr>cells := lattice_set (cells s) row col (flip_array_state U (cells s ! row ! col)),
                        np_random := g\<rparr>
                 else s\<lparr>np_random := g\<rparr>)" by blast
  have inl: "in_lattice (cells s) row col" by (rule glauber_choice_site(6)[OF c])
  have old: "cells s ! row ! col = 1 \<or> cells s ! row ! col = - 1"
    using assms(2) inl by (simp add: spins_ok_def in_lattice_def list_all_length)
  have "list_all (\<lambda>v. v = 1 \<or> v = - 1) ((cells s ! row)[col := - (cells s ! row ! col)])"
    using assms(2) inl old
    by (auto simp: spins_ok_def in_lattice_def list_all_length nth_list_update)
  then have "spins_ok (lattice_set (cells s) row col (- (cells s ! row ! col)))"
    using assms(2) unfolding spins_ok_def by (intro lattice_set_rows) simp_all
  then show ?thesis using assms(2,3) by (simp add: s')
qed


subsection \<open>Sweeps\<close>

lemma same_object_refl: "same_object s s"
  by (simp add: same_object_def)

lemma same_object_trans: "same_object s t \<Longrightarrow> same_object t u \<Longrightarrow> same_object s u"
  by (simp add: same_object_def)

lemma sweep_invariant:
  assumes "sweep U temp s = Inr s'"
  shows "same_object s s'" and "well_formed s \<Longrightarrow> well_formed s'"
    and "(\<And>v. flip_array_state U v = - v) \<Longrightarrow> spins_ok (cells s) \<Longrightarrow> spins_ok (cells s')"
proof -
  have run: "for_each (py_range (dimensions s ^ 2)) (\<lambda>j. glauber_procedure U temp) s = Inr s'"
    using assms by (simp add: sweep_def)
  show "same_object s s'"
    by (rule for_each_invariant[OF run, where P = "same_object s"])
      (auto simp: same_object_def dest: glauber_procedure_frame)
  show "well_formed s'" if "well_formed s"
    by (rule for_each_invariant[OF run, where P = well_formed])
      (auto simp: that dest: glauber_procedure_well_formed)
  show "spins_ok (cells s')" if "\<And>v. flip_array_state U v = - v" "spins_ok (cells s)"
    by (rule for_each_invariant[OF run, where P = "\<lambda>t. spins_ok (cells t)"])
      (auto simp: that intro: glauber_procedure_spins)
qed

lemma sweep_total:
  fixes s :: "'o glauber" and U :: "('e, 'o) sim_utils"
  assumes "well_formed s"
  shows "\<exists>s'. sweep U temp s = Inr s'"
proof (cases "dimensions s = 0")
  case True
  then show ?thesis by (simp add: sweep_def py_range_def)
next
  case False
  with assms have pos: "0 < dimensions s" by (simp add: well_formed_def)
  have "\<exists>s'. for_each (py_range (dimensions s ^ 2)) (\<lambda>j. glauber_procedure U temp) s = Inr s' \<and>
          (well_formed s' \<and> dimensions s' = dimensions s)"
  proof (rule for_each_total)
    show "well_formed s \<and> dimensions s = dimensions s" using assms by simp
  next
    fix x :: nat and t :: "'o glauber"
    assume t: "well_formed t \<and> dimensions t = dimensions s"
    with pos glauber_procedure_total[of t U temp] obtain t' where
      t': "glauber_procedure U temp t = Inr t'" by auto
    with t glauber_procedure_well_formed[OF t'] glauber_procedure_frame(1)[OF t']
    show "\<exists>t'. glauber_procedure U temp t = Inr t' \<and> (well_formed t' \<and> dimensions t' = dimensions s)"
      by auto
  qed
  then show ?thesis by (auto simp: sweep_def)
qed

lemma sweep_step_result:
  assumes "sweep_step U temp i s = Inr s'"
  shows "\<exists>s1. sweep U (Scalar temp) s = Inr s1 \<and>
           s' = (if sample_due i then calculate_averages U temp s1 else s1)"
  using assms by (auto simp: sweep_step_def and_then_Inr)

lemma sweep_step_invariant:
  assumes "sweep_step U temp i s = Inr s'"
  shows "dimensions s' = dimensions s" and "timesteps s' = timesteps s"
    and "tempurature s' = tempurature s" and "sim_type s' = sim_type s"
    and "effects s' = effects s"
    and "avg_qauntities s' =
           avg_qauntities s @ (if sample_due i then [observable U temp (cells s')] else [])"
    and "well_formed s \<Longrightarrow> well_formed s'"
    and "(\<And>v. flip_array_state U v = - v) \<Longrightarrow> spins_ok (cells s) \<Longrightarrow> spins_ok (cells s')"
proof -
  from sweep_step_result[OF assms] obtain s1 where
    s1: "sweep U (Scalar temp) s = Inr s1" and
    s': "s' = (if sample_due i then calculate_averages U temp s1 else s1)" by blast
  note inv = sweep_invariant[OF s1]
  show "dimensions s' = dimensions s" "timesteps s' = timesteps s"
    "tempurature s' = tempurature s" "sim_type s' = sim_type s" "effects s' = effects s"
    "avg_qauntities s' =
           avg_qauntities s @ (if sample_due i then [observable U temp (cells s')] else [])"
    using inv(1) by (simp_all add: s' same_object_def calculate_averages_def)
  show "well_formed s'" if "well_formed s"
    using inv(2)[OF that] by (simp add: s' well_formed_def calculate_averages_def)
  show "spins_ok (cells s')" if "\<And>v. flip_array_state U v = - v" "spins_ok (cells s)"
    using inv(3)[OF that] by (simp add: s' calculate_averages_def)
qed

lemma sweep_step_total:
  assumes "well_formed s"
  shows "\<exists>s'. sweep_step U temp i s = Inr s'"
  using sweep_total[OF assms, of U "Scalar temp"] by (auto simp: sweep_step_def)

lemma sweeps_total:
  assumes "well_formed s"
  shows "\<exists>s'. for_each is (sweep_step U temp) s = Inr s' \<and> well_formed s'"
  by (rule for_each_total[where P = well_formed, OF assms])
    (metis sweep_step_total sweep_step_invariant(7))

lemma sweeps_frame:
  assumes "for_each is (sweep_step U temp) s = Inr s'"
  shows "same_params s s'"
  by (rule for_each_invariant[OF assms, where P = "same_params s"])
    (simp_all add: same_params_def sweep_step_invariant)

lemma sweeps_samples:
  assumes "for_each [0..<n] (sweep_step U temp) s = Inr s'"
  shows "avg_qauntities s' =
           avg_qauntities s @
           map (\<lambda>i. observable U temp (cells_after_sweep U temp s i)) (filter sample_due [0..<n])"
  using assms
proof (induction n arbitrary: s')
  case 0
  then show ?case by simp
next
  case (Suc n)
  from Suc.prems obtain t where
    t: "for_each [0..<n] (sweep_step U temp) s = Inr t" and
    step: "sweep_step U temp n t = Inr s'"
    by (auto simp: for_each_append and_then_Inr)
  have after: "cells_after_sweep U temp s n = cells s'"
    using Suc.prems by (simp add: cells_after_sweep_def)
  show ?case
    using Suc.IH[OF t] sweep_step_invariant(6)[OF step] by (simp add: after)
qed

subsection \<open>One temperature, and the full run\<close>

lemma create_cells_result:
  assumes "create_cells s = Inr s'"
  shows "same_object s s'" and "well_formed s'" and "spins_ok (cells s')"
proof -
  from assms obtain cs g where
    c: "np_random_choice [1, - 1] (dimensions s) (dimensions s) (np_random s) = Inr (cs, g)" and
    s': "s' = s\<lparr>cells := cs, np_random := g\<rparr>"
    by (auto simp: create_cells_def and_then_Inr)
  show "same_object s s'" by (simp add: s' same_object_def)
  show "well_formed s'" using np_random_choice_shape[OF c] by (simp add: s' well_formed_def)
  show "spins_ok (cells s')" using np_random_choice_spins[OF c] by (simp add: s')
qed

lemma create_cells_total:
  assumes "0 \<le> dimensions s"
  shows "\<exists>s'. create_cells s = Inr s'"
  using assms by (simp add: create_cells_def np_random_choice_def Let_def)

lemma create_cells_negative:
  assumes "dimensions s < 0"
  shows "create_cells s = Inl ValueError"
  using assms by (simp add: create_cells_def np_random_choice_def)


lemma temperature_block_result:
  assumes "temperature_block U temp s = Inr s'"
  shows "\<exists>s0. create_cells s = Inr s0 \<and>
           for_each (py_range (timesteps s)) (sweep_step U temp) s0 = Inr s'"
proof -
  from assms obtain s0 where s0: "create_cells s = Inr s0"
    and run: "for_each (py_range (timesteps s0)) (sweep_step U temp) s0 = Inr s'"
    by (auto simp: temperature_block_def and_then_Inr)
  from create_cells_result(1)[OF s0] have "timesteps s0 = timesteps s"
    by (simp add: same_object_def)
  with s0 run show ?thesis by simp
qed

lemma temperature_block_total:
  assumes "0 \<le> dimensions s"
  shows "\<exists>s'. temperature_block U temp s = Inr s'"
proof -
  from create_cells_total[OF assms] obtain s0 where s0: "create_cells s = Inr s0" by blast
  from sweeps_total[OF create_cells_result(2)[OF s0], of "py_range (timesteps s0)" U temp]
  show ?thesis
    by (auto simp: temperature_block_def s0)
qed


lemma fst_observable: "fst (observable U temp cs) = temp"
  by (simp add: observable_def)

lemma temperature_block_invariant:
  assumes "temperature_block U temp s = Inr s'"
  shows "same_params s s'" and "well_formed s'"
    and "\<exists>s0. create_cells s = Inr s0 \<and>
           avg_qauntities s' =
             avg_qauntities s @
             map (\<lambda>i. observable U temp (cells_after_sweep U temp s0 i))
               (filter sample_due (py_range (timesteps s)))"
    and "map fst (avg_qauntities s') =
           map fst (avg_qauntities s) @
           replicate (length (filter sample_due (py_range (timesteps s)))) temp"
proof -
  from temperature_block_result[OF assms] obtain s0 where s0: "create_cells s = Inr s0"
    and run: "for_each (py_range (timesteps s)) (sweep_step U temp) s0 = Inr s'" by blast
  note c = create_cells_result[OF s0]
  show "same_params s s'"
    using c(1) sweeps_frame[OF run] by (simp add: same_object_def same_params_def)
  show "well_formed s'"
    using sweeps_total[OF c(2), of "py_range (timesteps s)" U temp] run by simp
  have avg: "avg_qauntities s' =
             avg_qauntities s @
             map (\<lambda>i. observable U temp (cells_after_sweep U temp s0 i))
               (filter sample_due (py_range (timesteps s)))"
    using sweeps_samples[OF run[unfolded py_range_def]] c(1)
    by (simp add: py_range_def same_object_def)
  then show "\<exists>s0. create_cells s = Inr s0 \<and>
           avg_qauntities s' =
             avg_qauntities s @
             map (\<lambda>i. observable U temp (cells_after_sweep U temp s0 i))
               (filter sample_due (py_range (timesteps s)))"
    using s0 by blast
  show "map fst (avg_qauntities s') =
           map fst (avg_qauntities s) @
           replicate (length (filter sample_due (py_range (timesteps s)))) temp"
    by (simp add: avg comp_def fst_observable map_replicate_const)
qed

lemma blocks_run:
  assumes "0 \<le> dimensions s"
  shows "\<exists>s'. for_each temps (temperature_block U) s = Inr s' \<and> same_params s s' \<and>
           map fst (avg_qauntities s') =
             map fst (avg_qauntities s) @
             concat (map (replicate (length (filter sample_due (py_range (timesteps s))))) temps)"
  using assms
proof (induction temps arbitrary: s)
  case Nil
  then show ?case by (simp add: same_params_def)
next
  case (Cons temp temps)
  from temperature_block_total[OF Cons.prems] obtain t where
    t: "temperature_block U temp s = Inr t" by blast
  note inv = temperature_block_invariant[OF t]
  have dt: "dimensions t = dimensions s" "timesteps t = timesteps s"
    using inv(1) by (simp_all add: same_params_def)
  from Cons.IH[of t] Cons.prems dt obtain s' where
    s': "for_each temps (temperature_block U) t = Inr s'" "same_params t s'"
      "map fst (avg_qauntities s') =
         map fst (avg_qauntities t) @
         concat (map (replicate (length (filter sample_due (py_range (timesteps s))))) temps)"
    by auto
  have "same_params s s'" using inv(1) s'(2) by (simp add: same_params_def)
  then show ?case using t s' inv(4) by simp
qed

lemma start_full_sim_run:
  assumes "tempurature s = Schedule temps" and "0 \<le> dimensions s"
  shows "\<exists>s'. start_full_sim U s = Inr s' \<and>
           dimensions s' = dimensions s \<and> timesteps s' = timesteps s \<and>
           tempurature s' = Schedule temps \<and> sim_type s' = sim_type s \<and>
           map fst (avg_qauntities s') =
             concat (map (replicate (length (filter sample_due (py_range (timesteps s))))) temps) \<and>
           effects s' = effects s @
             [Data_written (avg_qauntities s') (''Glauber'', dimensions s, timesteps s)
                (dimensions s ^ 2, timesteps s)]"
proof -
  define s1 where "s1 = s\<lparr>avg_qauntities := []\<rparr>"
  have "0 \<le> dimensions s1" using assms(2) by (simp add: s1_def)
  from blocks_run[OF this, of temps U] obtain s2 where
    s2: "for_each temps (temperature_block U) s1 = Inr s2" "same_params s1 s2"
      "map fst (avg_qauntities s2) =
         concat (map (replicate (length (filter sample_due (py_range (timesteps s))))) temps)"
    by (auto simp: s1_def)
  have "start_full_sim U s = Inr (finished_sim s2)"
    using assms(1) s2(1) by (simp add: start_full_sim_def Let_def s1_def)
  then show ?thesis using s2(2,3) assms(1)
    by (simp add: finished_sim_def same_params_def s1_def)
qed

subsection \<open>The schedule of samples and of temperatures\<close>

lemma sample_due_150: "filter sample_due [0..<150] = [100, 110, 120, 130, 140]"
  by (simp add: sample_due_def upt_rec)

lemma sample_due_early:
  assumes "n \<le> 100"
  shows "filter sample_due [0..<n] = []"
proof -
  have "\<not> sample_due i" if "i < n" for i
  proof (cases "i = 99")
    case True
    then show ?thesis by (simp add: sample_due_def)
  next
    case False
    with that assms show ?thesis by (simp add: sample_due_def)
  qed
  then show ?thesis by (simp add: filter_empty_conv)
qed

lemma samples_per_temperature_150:
  "timesteps s = 150 \<Longrightarrow> length (filter sample_due (py_range (timesteps s))) = 5"
  by (simp add: py_range_def sample_due_150)

lemma np_arange_full:
  "np_arange 1 3 (1 / 10) =
     [1, 11 / 10, 12 / 10, 13 / 10, 14 / 10, 15 / 10, 16 / 10, 17 / 10, 18 / 10, 19 / 10,
      2, 21 / 10, 22 / 10, 23 / 10, 24 / 10, 25 / 10, 26 / 10, 27 / 10, 28 / 10, 29 / 10]"
  by (simp add: np_arange_def upt_rec)

lemma start_sim_full:
  assumes "py_lower (sim_type s) \<noteq> ''visual''"
  shows "start_sim U s = start_full_sim U (s\<lparr>tempurature := Schedule (np_arange 1 3 (1 / 10))\<rparr>)"
  using assms by (simp add: start_sim_def)

lemma start_sim_full_run:
  assumes "py_lower (sim_type s) \<noteq> ''visual''" and "0 \<le> dimensions s"
  shows "\<exists>s'. start_sim U s = Inr s' \<and>
           dimensions s' = dimensions s \<and> timesteps s' = timesteps s \<and>
           tempurature s' = Schedule (np_arange 1 3 (1 / 10)) \<and> sim_type s' = sim_type s \<and>
           map fst (avg_qauntities s') =
             concat (map (replicate (length (filter sample_due (py_range (timesteps s)))))
               (np_arange 1 3 (1 / 10))) \<and>
           effects s' = effects s @
             [Data_written (avg_qauntities s') (''Glauber'', dimensions s, timesteps s)
                (dimensions s ^ 2, timesteps s)]"
  using start_full_sim_run[of "s\<lparr>tempurature := Schedule (np_arange 1 3 (1 / 10))\<rparr>"
      "np_arange 1 3 (1 / 10)" U] assms
  by (simp add: start_sim_full)

lemma start_sim_no_samples:
  assumes "py_lower (sim_type s) \<noteq> ''visual''" and "0 \<le> dimensions s" and "timesteps s \<le> 100"
  shows "\<exists>s'. start_sim U s = Inr s' \<and> avg_qauntities s' = [] \<and>
           effects s' = effects s @
             [Data_written [] (''Glauber'', dimensions s, timesteps s)
                (dimensions s ^ 2, timesteps s)]"
proof -
  have "nat (timesteps s) \<le> 100" using assms(3) by simp
  then have k: "length (filter sample_due (py_range (timesteps s))) = 0"
    by (simp add: py_range_def sample_due_early)
  have none: "concat (map (replicate 0) xs) = []" for xs :: "rat list"
    by (induction xs) simp_all
  from start_sim_full_run[OF assms(1,2), of U] obtain s' where
    s': "start_sim U s = Inr s'"
    "map fst (avg_qauntities s') =
       concat (map (replicate (length (filter sample_due (py_range (timesteps s)))))
         (np_arange 1 3 (1 / 10)))"
    "effects s' = effects s @
             [Data_written (avg_qauntities s') (''Glauber'', dimensions s, timesteps s)
                (dimensions s ^ 2, timesteps s)]"
    by blast
  from s'(2) have "avg_qauntities s' = []" unfolding k none by simp
  with s'(1,3) show ?thesis by simp
qed

lemma py_lower_full: "py_lower ''full'' \<noteq> ''visual''"
  by (simp add: py_lower_def)

subsection \<open>Starting the simulation\<close>

lemma char_lower_cases:
  "char_lower c = CHR ''v'' \<longleftrightarrow> c = CHR ''v'' \<or> c = CHR ''V''"
  "char_lower c = CHR ''i'' \<longleftrightarrow> c = CHR ''i'' \<or> c = CHR ''I''"
  "char_lower c = CHR ''s'' \<longleftrightarrow> c = CHR ''s'' \<or> c = CHR ''S''"
  "char_lower c = CHR ''u'' \<longleftrightarrow> c = CHR ''u'' \<or> c = CHR ''U''"
  "char_lower c = CHR ''a'' \<longleftrightarrow> c = CHR ''a'' \<or> c = CHR ''A''"
  "char_lower c = CHR ''l'' \<longleftrightarrow> c = CHR ''l'' \<or> c = CHR ''L''"
  by (auto simp: char_lower_def split: if_splits)

lemma py_lower_visual:
  "py_lower m = ''visual'' \<longleftrightarrow>
     list_all2 (\<lambda>c (l, u). c = l \<or> c = u) m (zip ''visual'' ''VISUAL'')"
  by (auto simp: py_lower_def list_all2_Cons2 char_lower_cases)

lemma start_sim_negative:
  assumes "py_lower (sim_type s) \<noteq> ''visual''" and "dimensions s < 0"
  shows "start_sim U s = Inl ValueError"
  using assms
  by (simp add: start_sim_def start_full_sim_def np_arange_full temperature_block_def
      create_cells_negative)

lemma start_sim_visual:
  assumes "py_lower (sim_type s) = ''visual''"
  shows "start_sim U s =
           and_then (create_cells s) (\<lambda>s1.
             Inr (s1\<lparr>effects := effects s1 @ [Figure_created (cells s1), Animation_started]\<rparr>))"
  using assms by (simp add: start_sim_def create_figure_def Let_def)

lemma start_sim_params:
  assumes "start_sim U s = Inr s'"
  shows "dimensions s' = dimensions s \<and> timesteps s' = timesteps s \<and> sim_type s' = sim_type s"
proof (cases "py_lower (sim_type s) = ''visual''")
  case True
  with assms obtain s1 where s1: "create_cells s = Inr s1"
    and s': "s' = s1\<lparr>effects := effects s1 @ [Figure_created (cells s1), Animation_started]\<rparr>"
    by (auto simp: start_sim_visual and_then_Inr)
  from create_cells_result(1)[OF s1] show ?thesis by (simp add: s' same_object_def)
next
  case False
  have "0 \<le> dimensions s"
  proof (rule ccontr)
    assume "\<not> 0 \<le> dimensions s"
    then have "start_sim U s = Inl ValueError" using False by (simp add: start_sim_negative)
    with assms show False by simp
  qed
  from start_sim_full_run[OF False this, of U] assms show ?thesis by auto
qed



lemma py_lower_banana: "py_lower ''Banana'' \<noteq> ''visual''"
  by (simp add: py_lower_def)

lemma start_sim_visual_run:
  assumes "py_lower (sim_type s) = ''visual''" and "0 \<le> dimensions s"
  shows "\<exists>s'. start_sim U s = Inr s' \<and> well_formed s' \<and> spins_ok (cells s') \<and>
           tempurature s' = tempurature s \<and> avg_qauntities s' = avg_qauntities s \<and>
           effects s' = effects s @ [Figure_created (cells s'), Animation_started]"
proof -
  from create_cells_total[OF assms(2)] obtain s1 where s1: "create_cells s = Inr s1" by blast
  note c = create_cells_result[OF s1]
  define s' where "s' = s1\<lparr>effects := effects s1 @ [Figure_created (cells s1), Animation_started]\<rparr>"
  have "start_sim U s = Inr s'" by (simp add: start_sim_visual[OF assms(1)] s1 s'_def)
  moreover have "well_formed s'" using c(2) by (simp add: s'_def well_formed_def)
  moreover have "spins_ok (cells s')" using c(3) by (simp add: s'_def)
  ultimately show ?thesis using c(1) by (auto simp: s'_def same_object_def)
qed

lemma py_lower_examples:
  "py_lower ''visual'' = ''visual''" "py_lower ''Visual'' = ''visual''"
  "py_lower ''VISUAL'' = ''visual''" "py_lower ''viSUal'' = ''visual''"
  "py_lower ''visuals'' \<noteq> ''visual''" "py_lower ''FULL'' \<noteq> ''visual''"
  by (simp_all add: py_lower_def char_lower_def)

subsection \<open>Counting the attempts of a sweep\<close>

lemma counted_apply: "counted f (s, n) = and_then (f s) (\<lambda>s'. Inr (s', Suc n))"
  by (simp add: counted_def)

lemma for_each_counted:
  "for_each xs (\<lambda>x. counted (body x)) (s, n) =
     and_then (for_each xs body s) (\<lambda>s'. Inr (s', n + length xs))"
proof (induction xs arbitrary: s n)
  case Nil
  show ?case by simp
next
  case (Cons x xs)
  show ?case by (cases "body x s") (simp_all add: counted_apply Cons.IH)
qed

lemma length_sweep_range:
  "0 \<le> d \<Longrightarrow> length (py_range (d ^ 2)) = nat d * nat d"
  by (simp add: py_range_def power2_eq_square nat_mult_distrib)

lemma demo_lattice_well_formed: "well_formed demo_lattice"
  by (simp add: demo_lattice_def well_formed_def)

lemma for_each_states:
  assumes "for_each xs body s = Inr s'"
  shows "\<exists>ss. length ss = Suc (length xs) \<and> ss ! 0 = s \<and> ss ! length xs = s' \<and>
           (\<forall>k < length xs. body (xs ! k) (ss ! k) = Inr (ss ! Suc k))"
  using assms
proof (induction xs arbitrary: s)
  case Nil
  then have "length [s] = Suc (length []) \<and> [s] ! 0 = s \<and> [s] ! length [] = s' \<and>
      (\<forall>k < length []. body ([] ! k) ([s] ! k) = Inr ([s] ! Suc k))" by simp
  then show ?case by (rule exI)
next
  case (Cons x xs)
  from Cons.prems obtain t where t: "body x s = Inr t" and rest: "for_each xs body t = Inr s'"
    by (auto simp: and_then_Inr)
  from Cons.IH[OF rest] obtain ss where ss: "length ss = Suc (length xs)" "ss ! 0 = t"
    "ss ! length xs = s'" "\<forall>k < length xs. body (xs ! k) (ss ! k) = Inr (ss ! Suc k)" by blast
  have "body ((x # xs) ! k) ((s # ss) ! k) = Inr ((s # ss) ! Suc k)" if "k < length (x # xs)" for k
  proof (cases k)
    case 0
    then show ?thesis using t ss(2) by simp
  next
    case (Suc j)
    with that ss(4) show ?thesis by simp
  qed
  then have "length (s # ss) = Suc (length (x # xs)) \<and> (s # ss) ! 0 = s \<and>
      (s # ss) ! length (x # xs) = s' \<and>
      (\<forall>k < length (x # xs). body ((x # xs) ! k) ((s # ss) ! k) = Inr ((s # ss) ! Suc k))"
    using ss(1,3) by simp
  then show ?case by (rule exI)
qed

lemma glauber_choice_decision:
  assumes "glauber_choice U temp s = Inr (row, col, outcome, g)"
  shows "\<exists>energy_change. check_nieghbours U s (row, col) = Inr energy_change \<and>
           determine_flip_state U energy_change temp (stl (stl (np_random s))) = (outcome, g)"
  using assms
  by (auto simp: glauber_choice_def np_random_randint_def and_then_Inr
      split: if_splits prod.splits)

lemma glauber_procedure_attempt:
  assumes "glauber_procedure U temp s = Inr s'"
  shows "update_attempt U temp s s'"
proof -
  from glauber_procedure_result[OF assms] obtain row col outcome g where
    c: "glauber_choice U temp s = Inr (row, col, outcome, g)" and
    s': "s' = (if outcome
                 then s\<lparr>cells := lattice_set (cells s) row col (flip_array_state U (cells s ! row ! col)),
                        np_random := g\<rparr>
                 else s\<lparr>np_random := g\<rparr>)" by blast
  from glauber_choice_decision[OF c] obtain e where
    e: "check_nieghbours U s (row, col) = Inr e"
      "determine_flip_state U e temp (stl (stl (np_random s))) = (outcome, g)" by blast
  note site = glauber_choice_site[OF c]
  have all: "row = shd (np_random s) mod nat (dimensions s) \<and>
        col = shd (stl (np_random s)) mod nat (dimensions s) \<and>
        row < nat (dimensions s) \<and> col < nat (dimensions s) \<and>
        check_nieghbours U s (row, col) = Inr e \<and>
        determine_flip_state U e temp (stl (stl (np_random s))) = (outcome, g) \<and>
        glauber_procedure U temp s = Inr s' \<and>
        s' =
          (if outcome
           then s\<lparr>cells := lattice_set (cells s) row col (flip_array_state U (cells s ! row ! col)),
                  np_random := g\<rparr>
           else s\<lparr>np_random := g\<rparr>)"
    using site(2) site(3) site(4) site(5) e(1) e(2) assms s' by (intro conjI)
  show ?thesis
    unfolding update_attempt_def
    apply (rule exI[of _ row])
    apply (rule exI[of _ col])
    apply (rule exI[of _ e])
    apply (rule exI[of _ outcome])
    apply (rule exI[of _ g])
    apply (rule all)
    done
qed

lemma sweep_states:
  assumes "well_formed s"
  shows "\<exists>ss s'. sweep U temp s = Inr s' \<and> successive_attempts U temp ss \<and>
           length ss = Suc (nat (dimensions s) * nat (dimensions s)) \<and> ss ! 0 = s \<and>
           ss ! (nat (dimensions s) * nat (dimensions s)) = s'"
proof -
  from sweep_total[OF assms, of U temp] obtain s' where s': "sweep U temp s = Inr s'" by blast
  have d: "0 \<le> dimensions s" using assms by (simp add: well_formed_def)
  note len = length_sweep_range[OF d]
  from s' have run: "for_each (py_range (dimensions s ^ 2)) (\<lambda>j. glauber_procedure U temp) s = Inr s'"
    by (simp add: sweep_def)
  from for_each_states[OF run] obtain ss where
    ss: "length ss = Suc (nat (dimensions s) * nat (dimensions s))" "ss ! 0 = s"
      "ss ! (nat (dimensions s) * nat (dimensions s)) = s'"
      "\<forall>k < nat (dimensions s) * nat (dimensions s).
         glauber_procedure U temp (ss ! k) = Inr (ss ! Suc k)"
    unfolding len by blast
  have "successive_attempts U temp ss"
    unfolding successive_attempts_def
  proof (intro allI impI)
    fix k
    assume "Suc k < length ss"
    with ss(1,4) have "glauber_procedure U temp (ss ! k) = Inr (ss ! Suc k)" by simp
    then show "update_attempt U temp (ss ! k) (ss ! Suc k)"
      by (rule glauber_procedure_attempt)
  qed
  with s' ss(1,2,3) show ?thesis by blast
qed

lemma demo_lattice_generator:
  "shd (np_random demo_lattice) = 4" "stl (np_random demo_lattice) = np_random demo_lattice"
  by (simp_all add: demo_lattice_def)

lemma demo_lattice_draws:
  assumes "successive_attempts demo_utils temp ss" and "ss ! 0 = demo_lattice" and "k < length ss"
  shows "np_random (ss ! k) = np_random demo_lattice \<and> dimensions (ss ! k) = 3"
  using assms(3)
proof (induction k)
  case 0
  show ?case unfolding assms(2) by (simp add: demo_lattice_def)
next
  case (Suc k)
  from Suc.prems have "k < length ss" by simp
  note IH = Suc.IH[OF this]
  from assms(1) Suc.prems have "update_attempt demo_utils temp (ss ! k) (ss ! Suc k)"
    by (simp add: successive_attempts_def)
  then obtain row col e outcome g where
    dec: "determine_flip_state demo_utils e temp (stl (stl (np_random (ss ! k)))) = (outcome, g)"
    and nxt: "ss ! Suc k =
          (if outcome
           then (ss ! k)\<lparr>cells := lattice_set (cells (ss ! k)) row col
                  (flip_array_state demo_utils (cells (ss ! k) ! row ! col)),
                  np_random := g\<rparr>
           else (ss ! k)\<lparr>np_random := g\<rparr>)"
    unfolding update_attempt_def by blast
  from dec have "g = stl (stl (stl (np_random (ss ! k))))"
    by (auto simp: demo_utils_def)
  then have g: "g = np_random demo_lattice"
    by (simp only: IH demo_lattice_generator(2))
  from IH have "dimensions (ss ! k) = 3" by blast
  then show ?case by (simp add: nxt g)
qed

subsection \<open>Runs from the same inputs\<close>

lemma rel_sumE:
  assumes "rel_sum (=) R x y"
  obtains (failed) e where "x = Inl e" and "y = Inl e"
  | (returned) a b where "x = Inr a" and "y = Inr b" and "R a b"
  using assms by (cases x; cases y) auto

lemma rel_sum_weaken:
  assumes "rel_sum (=) R x y" and "\<And>a b. R a b \<Longrightarrow> S a b"
  shows "rel_sum (=) S x y"
  using assms by (cases x; cases y) auto

lemma for_each_rel:
  assumes "\<And>x s t. R s t \<Longrightarrow> rel_sum (=) R (body x s) (body x t)" and "R s t"
  shows "rel_sum (=) R (for_each xs body s) (for_each xs body t)"
  using assms(2)
proof (induction xs arbitrary: s t)
  case Nil
  then show ?case by simp
next
  case (Cons x xs)
  from assms(1)[OF Cons.prems, of x] show ?case
  proof (cases rule: rel_sumE)
    case (failed e)
    then show ?thesis by simp
  next
    case (returned a b)
    with Cons.IH[of a b] show ?thesis by simp
  qed
qed

lemma glauber_choice_in_step:
  assumes "in_step s t"
  shows "glauber_choice U temp s = glauber_choice U temp t"
  using assms
  by (simp add: in_step_def same_inputs_def glauber_choice_def check_nieghbours_def
      SimulationPlane_check_nieghbours_def)

lemma glauber_procedure_in_step:
  assumes "in_step s t"
  shows "rel_sum (=) in_step (glauber_procedure U temp s) (glauber_procedure U temp t)"
proof (cases "glauber_choice U temp t")
  case (Inl e)
  then show ?thesis by (simp add: glauber_procedure_def glauber_choice_in_step[OF assms])
next
  case (Inr r)
  obtain row col outcome g where r: "r = (row, col, outcome, g)" by (cases r) auto
  have c: "cells s = cells t" using assms by (simp add: in_step_def)
  show ?thesis
  proof (cases "outcome \<and> \<not> in_lattice (cells t) row col")
    case True
    then show ?thesis
      by (simp add: glauber_procedure_def glauber_choice_in_step[OF assms] Inr r lattice_get_def c)
  next
    case False
    then show ?thesis using assms
      by (auto simp: glauber_procedure_def glauber_choice_in_step[OF assms] Inr r lattice_get_def
          in_step_def same_inputs_def)
  qed
qed

lemma sweep_in_step:
  assumes "in_step s t"
  shows "rel_sum (=) in_step (sweep U temp s) (sweep U temp t)"
proof -
  have d: "dimensions s = dimensions t" using assms by (simp add: in_step_def same_inputs_def)
  show ?thesis unfolding sweep_def d
    by (rule for_each_rel[OF glauber_procedure_in_step assms])
qed

lemma sweep_step_in_step:
  assumes "in_step s t"
  shows "rel_sum (=) in_step (sweep_step U temp i s) (sweep_step U temp i t)"
  using sweep_in_step[OF assms, of U "Scalar temp"]
proof (cases rule: rel_sumE)
  case (failed e)
  then show ?thesis by (simp add: sweep_step_def)
next
  case (returned a b)
  then show ?thesis
    by (simp add: sweep_step_def calculate_averages_def in_step_def same_inputs_def)
qed

lemma temperature_block_same_inputs:
  assumes "same_inputs s t"
  shows "rel_sum (=) same_inputs (temperature_block U temp s) (temperature_block U temp t)"
proof -
  have eq: "dimensions s = dimensions t" "np_random s = np_random t" "timesteps s = timesteps t"
    using assms by (simp_all add: same_inputs_def)
  show ?thesis
  proof (cases "np_random_choice [1, - 1] (dimensions t) (dimensions t) (np_random t)")
    case (Inl e)
    then show ?thesis by (simp add: temperature_block_def create_cells_def eq)
  next
    case (Inr r)
    obtain cs g where r: "r = (cs, g)" by (cases r) auto
    have step: "in_step (s\<lparr>cells := cs, np_random := g\<rparr>) (t\<lparr>cells := cs, np_random := g\<rparr>)"
      using assms by (simp add: in_step_def same_inputs_def)
    have "rel_sum (=) in_step
        (for_each (py_range (timesteps t)) (sweep_step U temp) (s\<lparr>cells := cs, np_random := g\<rparr>))
        (for_each (py_range (timesteps t)) (sweep_step U temp) (t\<lparr>cells := cs, np_random := g\<rparr>))"
      by (rule for_each_rel[OF sweep_step_in_step step])
    then have "rel_sum (=) same_inputs
        (for_each (py_range (timesteps t)) (sweep_step U temp) (s\<lparr>cells := cs, np_random := g\<rparr>))
        (for_each (py_range (timesteps t)) (sweep_step U temp) (t\<lparr>cells := cs, np_random := g\<rparr>))"
      by (rule rel_sum_weaken) (simp add: in_step_def)
    then show ?thesis by (simp add: temperature_block_def create_cells_def eq Inr r)
  qed
qed

lemma start_full_sim_same_inputs:
  assumes "dimensions s = dimensions t" and "timesteps s = timesteps t"
    and "np_random s = np_random t" and "tempurature s = tempurature t"
  shows "rel_sum (=) same_inputs (start_full_sim U s) (start_full_sim U t)"
proof (cases "tempurature t")
  case (Scalar x)
  then show ?thesis by (simp add: start_full_sim_def assms(4))
next
  case (Schedule temps)
  have "same_inputs (s\<lparr>avg_qauntities := []\<rparr>) (t\<lparr>avg_qauntities := []\<rparr>)"
    using assms by (simp add: same_inputs_def)
  from for_each_rel[of same_inputs "temperature_block U", OF temperature_block_same_inputs this]
  have "rel_sum (=) same_inputs
      (for_each temps (temperature_block U) (s\<lparr>avg_qauntities := []\<rparr>))
      (for_each temps (temperature_block U) (t\<lparr>avg_qauntities := []\<rparr>))" .
  then show ?thesis
  proof (cases rule: rel_sumE)
    case (failed e)
    then show ?thesis by (simp add: start_full_sim_def assms(4) Schedule)
  next
    case (returned a b)
    then show ?thesis
      by (simp add: start_full_sim_def assms(4) Schedule finished_sim_def same_inputs_def)
  qed
qed

subsection \<open>The spins of a run\<close>

lemma temperature_block_spins:
  assumes "temperature_block U temp s = Inr s'" and "\<And>v. flip_array_state U v = - v"
  shows "spins_ok (cells s')"
proof -
  from temperature_block_result[OF assms(1)] obtain s0 where s0: "create_cells s = Inr s0"
    and run: "for_each (py_range (timesteps s)) (sweep_step U temp) s0 = Inr s'" by blast
  show ?thesis
    by (rule for_each_invariant[OF run, where P = "\<lambda>t. spins_ok (cells t)"])
      (auto simp: create_cells_result(3)[OF s0] assms(2) intro: sweep_step_invariant(8))
qed

lemma anim_func_spins:
  assumes "anim_func U s = Inr s'" and "\<And>v. flip_array_state U v = - v"
    and "spins_ok (cells s)"
  shows "spins_ok (cells s')"
proof -
  from assms(1) obtain s1 where s1: "sweep U (tempurature s) s = Inr s1"
    and s': "s' = s1\<lparr>effects := effects s1 @ [Frame_drawn (cells s1)]\<rparr>"
    by (auto simp: anim_func_def and_then_Inr)
  from sweep_invariant(3)[OF s1 assms(2,3)] show ?thesis by (simp add: s')
qed

lemma start_sim_spins:
  assumes "start_sim U s = Inr s'" and "\<And>v. flip_array_state U v = - v"
  shows "spins_ok (cells s')"
proof (cases "py_lower (sim_type s) = ''visual''")
  case True
  with assms(1) obtain s1 where s1: "create_cells s = Inr s1"
    and s': "s' = s1\<lparr>effects := effects s1 @ [Figure_created (cells s1), Animation_started]\<rparr>"
    by (auto simp: start_sim_visual and_then_Inr)
  from create_cells_result(3)[OF s1] show ?thesis by (simp add: s')
next
  case False
  define s1 where "s1 = s\<lparr>tempurature := Schedule (np_arange 1 3 (1 / 10)), avg_qauntities := []\<rparr>"
  obtain temps where temps: "np_arange 1 3 (1 / 10) = 1 # temps"
    by (simp add: np_arange_full)
  from assms(1) False obtain s2 where
    run: "for_each (1 # temps) (temperature_block U) s1 = Inr s2" and s': "s' = finished_sim s2"
    by (auto simp: start_sim_def start_full_sim_def and_then_Inr s1_def temps)
  from run obtain t where t: "temperature_block U 1 s1 = Inr t"
    and rest: "for_each temps (temperature_block U) t = Inr s2"
    by (auto simp: and_then_Inr)
  have "spins_ok (cells s2)"
    by (rule for_each_invariant[OF rest, where P = "\<lambda>t. spins_ok (cells t)"])
      (auto simp: temperature_block_spins[OF t assms(2)] assms(2) intro: temperature_block_spins)
  then show ?thesis by (simp add: s' finished_sim_def)
qed

section \<open>The claims\<close>

subsection \<open>C1\<close>

text \<open>
  C1, as amended. In a full run the test of line 67 is \<open>i >= 99 and i % 10 == 0\<close>, so
  with \<open>timesteps = 150\<close> the samples of every temperature are taken after the sweeps
  100, 110, 120, 130 and 140, five per temperature, each from the lattice as it is after
  that sweep; the records of the whole run carry every temperature of the schedule five
  times, in order. With \<open>timesteps = 50\<close> the run ends with no record at all.
\<close>

theorem sampling_at_150_and_50:
  assumes "0 \<le> dimensions s" and "py_lower (sim_type s) \<noteq> ''visual''"
  shows "(timesteps s = 150 \<longrightarrow>
            (\<forall>temp s'. temperature_block U temp s = Inr s' \<longrightarrow>
               (\<exists>s0. create_cells s = Inr s0 \<and>
                  avg_qauntities s' =
                    avg_qauntities s @
                    map (\<lambda>i. observable U temp (cells_after_sweep U temp s0 i))
                      [100, 110, 120, 130, 140])) \<and>
            (\<exists>s'. start_sim U s = Inr s' \<and>
               map fst (avg_qauntities s') =
                 concat (map (replicate 5) (np_arange 1 3 (1 / 10))))) \<and>
         (timesteps s = 50 \<longrightarrow> (\<exists>s'. start_sim U s = Inr s' \<and> avg_qauntities s' = []))"
proof (intro conjI impI allI)
  fix temp s'
  assume "timesteps s = 150" and "temperature_block U temp s = Inr s'"
  with temperature_block_invariant(3)[of U temp s s'] sample_due_150
  show "\<exists>s0. create_cells s = Inr s0 \<and>
          avg_qauntities s' =
            avg_qauntities s @
            map (\<lambda>i. observable U temp (cells_after_sweep U temp s0 i)) [100, 110, 120, 130, 140]"
    by (simp add: py_range_def)
next
  assume "timesteps s = 150"
  note k = samples_per_temperature_150[OF this]
  from start_sim_full_run[OF assms(2,1), of U] obtain s' where
    "start_sim U s = Inr s'"
    "map fst (avg_qauntities s') =
       concat (map (replicate (length (filter sample_due (py_range (timesteps s)))))
         (np_arange 1 3 (1 / 10)))"
    by blast
  then show "\<exists>s'. start_sim U s = Inr s' \<and>
          map fst (avg_qauntities s') = concat (map (replicate 5) (np_arange 1 3 (1 / 10)))"
    unfolding k by blast
next
  assume "timesteps s = 50"
  with start_sim_no_samples[OF assms(2,1), of U]
  show "\<exists>s'. start_sim U s = Inr s' \<and> avg_qauntities s' = []"
    by auto
qed

theorem sampling_at_150_and_50_witness:
  "(\<exists>s'. temperature_block demo_utils 1 (demo_sim 2 150 ''full'') = Inr s' \<and>
      length (avg_qauntities s') = 5) \<and>
   (\<exists>s'. start_sim demo_utils (demo_sim 2 150 ''full'') = Inr s' \<and>
      map fst (avg_qauntities s') = concat (map (replicate 5) (np_arange 1 3 (1 / 10)))) \<and>
   (\<exists>s'. start_sim demo_utils (demo_sim 2 50 ''full'') = Inr s' \<and> avg_qauntities s' = [])"
proof -
  define s :: "int glauber" where "s = demo_sim 2 150 ''full''"
  have d: "0 \<le> dimensions s" and t: "timesteps s = 150" and a: "avg_qauntities s = []"
    by (simp_all add: s_def demo_sim_def)
  have nv: "py_lower (sim_type s) \<noteq> ''visual''"
    using py_lower_full by (simp add: s_def demo_sim_def)
  note at_150 = sampling_at_150_and_50[OF d nv, of demo_utils]
  from temperature_block_total[OF d, of demo_utils 1] obtain s1 where
    s1: "temperature_block demo_utils 1 s = Inr s1" by blast
  with at_150 t obtain s0 where
    "avg_qauntities s1 =
       avg_qauntities s @
       map (\<lambda>i. observable demo_utils 1 (cells_after_sweep demo_utils 1 s0 i))
         [100, 110, 120, 130, 140]"
    by blast
  then have "length (avg_qauntities s1) = 5" by (simp add: a)
  with s1 have first: "\<exists>s'. temperature_block demo_utils 1 s = Inr s' \<and>
      length (avg_qauntities s') = 5" by blast
  from at_150 t have second: "\<exists>s'. start_sim demo_utils s = Inr s' \<and>
      map fst (avg_qauntities s') = concat (map (replicate 5) (np_arange 1 3 (1 / 10)))"
    by blast
  have third: "\<exists>s'. start_sim demo_utils (demo_sim 2 50 ''full'') = Inr s' \<and>
      avg_qauntities s' = []"
    using sampling_at_150_and_50[of "demo_sim 2 50 ''full''" demo_utils] py_lower_full
    by (simp add: demo_sim_def)
  from first second third show ?thesis unfolding s_def by blast
qed

text \<open>
  The claim as written has six samples per temperature, after the sweeps 99, 109, ...,
  149. A full run of a lattice of one cell with \<open>timesteps = 150\<close> ends with
  \<open>20 * 5 = 100\<close> records, not 120: sweep 99 is not sampled (\<open>99 % 10\<close> is 9) and sweep
  100 is.
\<close>

theorem six_samples_at_150_counterexample:
  "map_sum id (\<lambda>s'. length (avg_qauntities s')) (start_sim demo_utils (demo_sim 1 150 ''full''))
     = Inr (20 * 5) \<and>
   sample_due 99 = False \<and> sample_due 100 = True"
proof -
  have "0 \<le> dimensions (demo_sim 1 150 ''full'')" by (simp add: demo_sim_def)
  from start_sim_full_run[OF _ this, of demo_utils] py_lower_full obtain s' where
    s': "start_sim demo_utils (demo_sim 1 150 ''full'') = Inr s'"
      "map fst (avg_qauntities s') =
         concat (map (replicate (length (filter sample_due [0..<150]))) (np_arange 1 3 (1 / 10)))"
    by (auto simp: demo_sim_def py_range_def)
  have "length (map fst (avg_qauntities s')) = 100"
    unfolding s'(2) sample_due_150 np_arange_full by simp
  then show ?thesis by (simp add: s'(1) sample_due_def)
qed

subsection \<open>C2\<close>

text \<open>
  C2. In a full run, after the sweep of index \<open>i\<close> a sample is appended to the records
  exactly when \<open>i \<ge> 99\<close> and \<open>i mod 10 = 0\<close>, and it is taken from the lattice as that
  sweep left it; so the records a temperature adds are those of the sweeps \<open>i\<close> below
  \<open>timesteps\<close> that pass the test, in order. A full run with \<open>timesteps < 100\<close> ends
  without an error, with no record, and hands the empty sequence to \<open>write_data\<close>.
\<close>

theorem sample_after_sweep_iff_due:
  "(\<forall>s'. sweep_step U temp i s = Inr s' \<longrightarrow>
      avg_qauntities s' =
        (if 99 \<le> i \<and> i mod 10 = 0 then avg_qauntities s @ [observable U temp (cells s')]
         else avg_qauntities s)) \<and>
   (\<forall>s'. temperature_block U temp s = Inr s' \<longrightarrow>
      (\<exists>s0. create_cells s = Inr s0 \<and>
         avg_qauntities s' =
           avg_qauntities s @
           map (\<lambda>i. observable U temp (cells_after_sweep U temp s0 i))
             (filter (\<lambda>i. 99 \<le> i \<and> i mod 10 = 0) [0..<nat (timesteps s)]))) \<and>
   (0 \<le> dimensions s \<and> py_lower (sim_type s) \<noteq> ''visual'' \<and> timesteps s < 100 \<longrightarrow>
      (\<exists>s'. start_sim U s = Inr s' \<and> avg_qauntities s' = [] \<and>
         effects s' = effects s @
           [Data_written [] (''Glauber'', dimensions s, timesteps s)
              (dimensions s ^ 2, timesteps s)]))"
proof (intro conjI allI impI)
  fix s'
  assume "sweep_step U temp i s = Inr s'"
  from sweep_step_invariant(6)[OF this]
  show "avg_qauntities s' =
        (if 99 \<le> i \<and> i mod 10 = 0 then avg_qauntities s @ [observable U temp (cells s')]
         else avg_qauntities s)"
    by (simp add: sample_due_def)
next
  fix s'
  assume "temperature_block U temp s = Inr s'"
  from temperature_block_invariant(3)[OF this]
  show "\<exists>s0. create_cells s = Inr s0 \<and>
         avg_qauntities s' =
           avg_qauntities s @
           map (\<lambda>i. observable U temp (cells_after_sweep U temp s0 i))
             (filter (\<lambda>i. 99 \<le> i \<and> i mod 10 = 0) [0..<nat (timesteps s)])"
    by (simp add: py_range_def sample_due_def[abs_def])
next
  assume "0 \<le> dimensions s \<and> py_lower (sim_type s) \<noteq> ''visual'' \<and> timesteps s < 100"
  then show "\<exists>s'. start_sim U s = Inr s' \<and> avg_qauntities s' = [] \<and>
         effects s' = effects s @
           [Data_written [] (''Glauber'', dimensions s, timesteps s)
              (dimensions s ^ 2, timesteps s)]"
    using start_sim_no_samples[of s U] by simp
qed

theorem sample_after_sweep_iff_due_witness:
  "(\<exists>s0 s'. create_cells (demo_sim 2 150 ''full'') = Inr s0 \<and>
      sweep_step demo_utils 1 100 s0 = Inr s' \<and>
      avg_qauntities s' = avg_qauntities s0 @ [observable demo_utils 1 (cells s')]) \<and>
   (\<exists>s0 s'. create_cells (demo_sim 2 150 ''full'') = Inr s0 \<and>
      sweep_step demo_utils 1 99 s0 = Inr s' \<and> avg_qauntities s' = avg_qauntities s0) \<and>
   (\<exists>s'. temperature_block demo_utils 1 (demo_sim 2 150 ''full'') = Inr s' \<and>
      length (avg_qauntities s') = 5) \<and>
   (\<exists>s'. start_sim demo_utils (demo_sim 2 99 ''full'') = Inr s' \<and> avg_qauntities s' = [])"
proof -
  have d: "0 \<le> dimensions (demo_sim 2 150 ''full'')" by (simp add: demo_sim_def)
  from create_cells_total[OF d] obtain s0 where
    s0: "create_cells (demo_sim 2 150 ''full'') = Inr s0" by blast
  note wf = create_cells_result(2)[OF s0]
  from sweep_step_total[OF wf, of demo_utils 1 100] obtain s1 where
    s1: "sweep_step demo_utils 1 100 s0 = Inr s1" by blast
  from sweep_step_total[OF wf, of demo_utils 1 99] obtain s2 where
    s2: "sweep_step demo_utils 1 99 s0 = Inr s2" by blast
  from temperature_block_total[OF d, of demo_utils 1] obtain s3 where
    s3: "temperature_block demo_utils 1 (demo_sim 2 150 ''full'') = Inr s3" by blast
  have a: "avg_qauntities s1 = avg_qauntities s0 @ [observable demo_utils 1 (cells s1)]"
    using sample_after_sweep_iff_due[of demo_utils 1 100 s0] s1 by simp
  have b: "avg_qauntities s2 = avg_qauntities s0"
    using sample_after_sweep_iff_due[of demo_utils 1 99 s0] s2 by simp
  have c: "length (avg_qauntities s3) = 5"
    using sample_after_sweep_iff_due[of demo_utils 1 0 "demo_sim 2 150 ''full''"] s3 s0
      sample_due_150
    by (auto simp: demo_sim_def sample_due_def[abs_def])
  have e: "\<exists>s'. start_sim demo_utils (demo_sim 2 99 ''full'') = Inr s' \<and> avg_qauntities s' = []"
    using sample_after_sweep_iff_due[of demo_utils 1 0 "demo_sim 2 99 ''full''"] py_lower_full
    by (auto simp: demo_sim_def)
  from s0 s1 s2 s3 a b c e show ?thesis by blast
qed

subsection \<open>C3\<close>

text \<open>
  C3. Constructing a simulation with \<open>dimensions \<le> 0\<close> or \<open>timesteps \<le> 0\<close> fails with
  InvalidParameter, so that there is no object to run; an object that was constructed
  has positive sizes and no lattice yet, and \<open>start_sim\<close> keeps the sizes. The check is
  that of the base class's constructor as the spec gives it: \<open>Glauber.__init__\<close> calls it
  first and tests nothing itself.
\<close>

theorem construction_rejects_non_positive:
  fixes U :: "('e, 'o) sim_utils"
  shows "(dims \<le> 0 \<or> steps \<le> 0 \<longrightarrow>
      (Glauber_init dims steps mode temp g :: error + 'o glauber) = Inl InvalidParameter) \<and>
   (\<forall>s :: 'o glauber. Glauber_init dims steps mode temp g = Inr s \<longrightarrow>
      0 < dimensions s \<and> 0 < timesteps s \<and> cells s = [] \<and>
      (\<forall>s'. start_sim U s = Inr s' \<longrightarrow> 0 < dimensions s' \<and> 0 < timesteps s'))"
proof (intro conjI allI impI)
  assume "dims \<le> 0 \<or> steps \<le> 0"
  then show "(Glauber_init dims steps mode temp g :: error + 'o glauber) = Inl InvalidParameter"
    by (auto simp: Glauber_init_def SimulationPlane_init_def)
next
  fix s :: "'o glauber"
  assume s: "Glauber_init dims steps mode temp g = Inr s"
  then show pos: "0 < dimensions s" "0 < timesteps s" and "cells s = []"
    by (auto simp: Glauber_init_def SimulationPlane_init_def split: if_splits)
  fix s'
  assume "start_sim U s = Inr s'"
  from start_sim_params[OF this] pos
  show "0 < dimensions s'" "0 < timesteps s'" by simp_all
qed

theorem construction_rejects_non_positive_witness:
  "(Glauber_init 0 10 ''full'' (Scalar 2) (siterate Suc 0) :: error + int glauber)
     = Inl InvalidParameter \<and>
   (Glauber_init 5 (- 3) ''visual'' (Scalar 2) (siterate Suc 0) :: error + int glauber)
     = Inl InvalidParameter \<and>
   (\<exists>s :: int glauber. Glauber_init 5 10 ''full'' (Scalar 2) (siterate Suc 0) = Inr s \<and>
      0 < dimensions s \<and> 0 < timesteps s \<and> cells s = [] \<and>
      (\<exists>s'. start_sim demo_utils s = Inr s' \<and> 0 < dimensions s' \<and> 0 < timesteps s'))"
proof -
  define s :: "int glauber" where "s = demo_sim 5 10 ''full''"
  have init: "Glauber_init 5 10 ''full'' (Scalar 2) (siterate Suc 0) = Inr s"
    by (simp add: Glauber_init_def SimulationPlane_init_def demo_sim_def s_def)
  have "py_lower (sim_type s) \<noteq> ''visual''" "0 \<le> dimensions s"
    using py_lower_full by (simp_all add: s_def demo_sim_def)
  from start_sim_full_run[OF this, of demo_utils] obtain s' where
    s': "start_sim demo_utils s = Inr s'" by blast
  show ?thesis
    using construction_rejects_non_positive[of 0 10 "''full''" "Scalar 2" "siterate Suc 0" demo_utils]
      construction_rejects_non_positive[of 5 "- 3" "''visual''" "Scalar 2" "siterate Suc 0" demo_utils]
      construction_rejects_non_positive[of 5 10 "''full''" "Scalar 2" "siterate Suc 0" demo_utils]
      init s'
    by auto
qed

subsection \<open>C8\<close>

text \<open>
  C8. When the lowercase form of the mode string is not \<open>visual\<close>, \<open>start_sim\<close> is the
  full run over the schedule of temperatures: no error comes from the mode (the only
  error is numpy's ValueError for a negative \<open>dimensions\<close>), and with \<open>dimensions \<ge> 0\<close>
  the run ends with the schedule in \<open>tempurature\<close> and the records handed to
  \<open>write_data\<close>.
\<close>

theorem unknown_mode_runs_full:
  assumes "py_lower (sim_type s) \<noteq> ''visual''"
  shows "start_sim U s =
           start_full_sim U (s\<lparr>tempurature := Schedule (np_arange 1 3 (1 / 10))\<rparr>) \<and>
         (\<forall>e. start_sim U s = Inl e \<longrightarrow> e = ValueError \<and> dimensions s < 0) \<and>
         (0 \<le> dimensions s \<longrightarrow>
            (\<exists>s'. start_sim U s = Inr s' \<and>
               tempurature s' = Schedule (np_arange 1 3 (1 / 10)) \<and>
               effects s' = effects s @
                 [Data_written (avg_qauntities s') (''Glauber'', dimensions s, timesteps s)
                    (dimensions s ^ 2, timesteps s)]))"
proof (intro conjI allI impI)
  show "start_sim U s = start_full_sim U (s\<lparr>tempurature := Schedule (np_arange 1 3 (1 / 10))\<rparr>)"
    by (rule start_sim_full[OF assms])
next
  fix e
  assume e: "start_sim U s = Inl e"
  have neg: "dimensions s < 0"
  proof (rule ccontr)
    assume "\<not> dimensions s < 0"
    then have "0 \<le> dimensions s" by simp
    from start_sim_full_run[OF assms this, of U] e show False by auto
  qed
  from start_sim_negative[OF assms neg, of U] e show "e = ValueError" by simp
  show "dimensions s < 0" by (rule neg)
next
  assume "0 \<le> dimensions s"
  from start_sim_full_run[OF assms this, of U]
  show "\<exists>s'. start_sim U s = Inr s' \<and>
               tempurature s' = Schedule (np_arange 1 3 (1 / 10)) \<and>
               effects s' = effects s @
                 [Data_written (avg_qauntities s') (''Glauber'', dimensions s, timesteps s)
                    (dimensions s ^ 2, timesteps s)]"
    by blast
qed

theorem unknown_mode_runs_full_witness:
  "py_lower ''Banana'' \<noteq> ''visual'' \<and>
   start_sim demo_utils (demo_sim 3 120 ''Banana'') =
     start_full_sim demo_utils
       ((demo_sim 3 120 ''Banana'')\<lparr>tempurature := Schedule (np_arange 1 3 (1 / 10))\<rparr>) \<and>
   (\<exists>s'. start_sim demo_utils (demo_sim 3 120 ''Banana'') = Inr s' \<and>
      tempurature s' = Schedule (np_arange 1 3 (1 / 10)) \<and>
      effects s' = [Data_written (avg_qauntities s') (''Glauber'', 3, 120) (9, 120)])"
proof -
  define s :: "int glauber" where "s = demo_sim 3 120 ''Banana''"
  have nv: "py_lower (sim_type s) \<noteq> ''visual''"
    using py_lower_banana by (simp add: s_def demo_sim_def)
  have d: "0 \<le> dimensions s" by (simp add: s_def demo_sim_def)
  note t = unknown_mode_runs_full[OF nv, of demo_utils]
  from t have a: "start_sim demo_utils s =
      start_full_sim demo_utils (s\<lparr>tempurature := Schedule (np_arange 1 3 (1 / 10))\<rparr>)"
    by blast
  from t d obtain s' where "start_sim demo_utils s = Inr s'"
    "tempurature s' = Schedule (np_arange 1 3 (1 / 10))"
    "effects s' = effects s @
       [Data_written (avg_qauntities s') (''Glauber'', dimensions s, timesteps s)
          (dimensions s ^ 2, timesteps s)]"
    by blast
  then have "\<exists>s'. start_sim demo_utils s = Inr s' \<and>
      tempurature s' = Schedule (np_arange 1 3 (1 / 10)) \<and>
      effects s' = [Data_written (avg_qauntities s') (''Glauber'', 3, 120) (9, 120)]"
    by (simp add: s_def demo_sim_def)
  with a py_lower_banana show ?thesis by (simp add: s_def)
qed

subsection \<open>C10\<close>

text \<open>
  C10. The mode is compared after \<open>lower()\<close>: the strings that select the visual
  simulation are exactly those of six letters spelling \<open>visual\<close> in any mix of cases.
  For them \<open>start_sim\<close> creates the lattice and the figure and starts the animation,
  leaving the temperature and the records as they were; for every other string it is
  the full run over the schedule.
\<close>

theorem mode_is_case_insensitive:
  "((py_lower (sim_type s) = ''visual'') =
      list_all2 (\<lambda>c (l, u). c = l \<or> c = u) (sim_type s) (zip ''visual'' ''VISUAL'')) \<and>
   (py_lower (sim_type s) = ''visual'' \<and> 0 \<le> dimensions s \<longrightarrow>
      (\<exists>s'. start_sim U s = Inr s' \<and> tempurature s' = tempurature s \<and>
         avg_qauntities s' = avg_qauntities s \<and>
         effects s' = effects s @ [Figure_created (cells s'), Animation_started])) \<and>
   (py_lower (sim_type s) \<noteq> ''visual'' \<longrightarrow>
      start_sim U s =
        start_full_sim U (s\<lparr>tempurature := Schedule (np_arange 1 3 (1 / 10))\<rparr>))"
  using py_lower_visual[of "sim_type s"] start_sim_visual_run[of s U] start_sim_full[of s U]
  by blast

theorem mode_is_case_insensitive_witness:
  "(\<exists>s'. start_sim demo_utils (demo_sim 4 10 ''Visual'') = Inr s' \<and>
      tempurature s' = Scalar 2 \<and> avg_qauntities s' = [] \<and>
      effects s' = [Figure_created (cells s'), Animation_started]) \<and>
   (\<exists>s'. start_sim demo_utils (demo_sim 4 10 ''VISUAL'') = Inr s' \<and>
      tempurature s' = Scalar 2 \<and> avg_qauntities s' = [] \<and>
      effects s' = [Figure_created (cells s'), Animation_started]) \<and>
   start_sim demo_utils (demo_sim 4 10 ''FULL'') =
     start_full_sim demo_utils
       ((demo_sim 4 10 ''FULL'')\<lparr>tempurature := Schedule (np_arange 1 3 (1 / 10))\<rparr>)"
proof -
  have a: "\<exists>s'. start_sim demo_utils (demo_sim 4 10 ''Visual'') = Inr s' \<and>
      tempurature s' = Scalar 2 \<and> avg_qauntities s' = [] \<and>
      effects s' = [Figure_created (cells s'), Animation_started]"
    using mode_is_case_insensitive[of "demo_sim 4 10 ''Visual''" demo_utils] py_lower_examples
    by (simp add: demo_sim_def)
  have b: "\<exists>s'. start_sim demo_utils (demo_sim 4 10 ''VISUAL'') = Inr s' \<and>
      tempurature s' = Scalar 2 \<and> avg_qauntities s' = [] \<and>
      effects s' = [Figure_created (cells s'), Animation_started]"
    using mode_is_case_insensitive[of "demo_sim 4 10 ''VISUAL''" demo_utils] py_lower_examples
    by (simp add: demo_sim_def)
  have c: "start_sim demo_utils (demo_sim 4 10 ''FULL'') =
     start_full_sim demo_utils
       ((demo_sim 4 10 ''FULL'')\<lparr>tempurature := Schedule (np_arange 1 3 (1 / 10))\<rparr>)"
    using mode_is_case_insensitive[of "demo_sim 4 10 ''FULL''" demo_utils] py_lower_examples
    by (simp add: demo_sim_def)
  from a b c show ?thesis by blast
qed

subsection \<open>C4\<close>



subsection \<open>C5\<close>

text \<open>
  C5. On a lattice of \<open>N\<close> by \<open>N\<close> cells a sweep returns, and it is exactly \<open>N\<^sup>2\<close> update
  attempts one after the other: there are states \<open>ss ! 0, ..., ss ! N\<^sup>2\<close>, from the
  state the sweep starts in to the state it ends in, each obtained from the one before
  by one call of \<open>glauber_procedure\<close>, and the loop run with the counting updater ends
  in the same state with the counter at \<open>N\<^sup>2\<close>. Every attempt draws its own site: its
  row and column are the next two draws of the generator as the attempt before left
  it, reduced into \<open>[0, N)\<close>, whatever sites were drawn before, and it leaves the
  generator as the decision returns it from behind these two draws. The sweep of a
  full run (\<open>sweep_step\<close>) and that of a frame (\<open>anim_func\<close>) are such sequences too.
\<close>

theorem sweep_makes_N2_attempts:
  assumes "well_formed s"
  shows "(\<exists>ss s'. successive_attempts U temp ss \<and>
            length ss = Suc (nat (dimensions s) * nat (dimensions s)) \<and> ss ! 0 = s \<and>
            ss ! (nat (dimensions s) * nat (dimensions s)) = s' \<and>
            sweep U temp s = Inr s' \<and>
            for_each (py_range (dimensions s ^ 2)) (\<lambda>j. counted (glauber_procedure U temp)) (s, 0)
              = Inr (s', nat (dimensions s) * nat (dimensions s))) \<and>
         (\<exists>ss s'. successive_attempts U (Scalar t) ss \<and>
            length ss = Suc (nat (dimensions s) * nat (dimensions s)) \<and> ss ! 0 = s \<and>
            ss ! (nat (dimensions s) * nat (dimensions s)) = s' \<and>
            sweep_step U t i s = Inr (if sample_due i then calculate_averages U t s' else s')) \<and>
         (\<exists>ss s'. successive_attempts U (tempurature s) ss \<and>
            length ss = Suc (nat (dimensions s) * nat (dimensions s)) \<and> ss ! 0 = s \<and>
            ss ! (nat (dimensions s) * nat (dimensions s)) = s' \<and>
            anim_func U s = Inr (s'\<lparr>effects := effects s' @ [Frame_drawn (cells s')]\<rparr>))"
proof (intro conjI)
  have d: "0 \<le> dimensions s" using assms by (simp add: well_formed_def)
  from sweep_states[OF assms, of U temp] obtain ss s' where
    a: "sweep U temp s = Inr s'" "successive_attempts U temp ss"
      "length ss = Suc (nat (dimensions s) * nat (dimensions s))" "ss ! 0 = s"
      "ss ! (nat (dimensions s) * nat (dimensions s)) = s'" by blast
  have "for_each (py_range (dimensions s ^ 2)) (\<lambda>j. counted (glauber_procedure U temp)) (s, 0)
          = Inr (s', nat (dimensions s) * nat (dimensions s))"
    using a(1) by (simp add: for_each_counted sweep_def length_sweep_range[OF d])
  with a show "\<exists>ss s'. successive_attempts U temp ss \<and>
            length ss = Suc (nat (dimensions s) * nat (dimensions s)) \<and> ss ! 0 = s \<and>
            ss ! (nat (dimensions s) * nat (dimensions s)) = s' \<and>
            sweep U temp s = Inr s' \<and>
            for_each (py_range (dimensions s ^ 2)) (\<lambda>j. counted (glauber_procedure U temp)) (s, 0)
              = Inr (s', nat (dimensions s) * nat (dimensions s))" by blast
next
  from sweep_states[OF assms, of U "Scalar t"] obtain ss s' where
    a: "sweep U (Scalar t) s = Inr s'" "successive_attempts U (Scalar t) ss"
      "length ss = Suc (nat (dimensions s) * nat (dimensions s))" "ss ! 0 = s"
      "ss ! (nat (dimensions s) * nat (dimensions s)) = s'" by blast
  have "sweep_step U t i s = Inr (if sample_due i then calculate_averages U t s' else s')"
    by (simp add: sweep_step_def a(1))
  with a show "\<exists>ss s'. successive_attempts U (Scalar t) ss \<and>
            length ss = Suc (nat (dimensions s) * nat (dimensions s)) \<and> ss ! 0 = s \<and>
            ss ! (nat (dimensions s) * nat (dimensions s)) = s' \<and>
            sweep_step U t i s = Inr (if sample_due i then calculate_averages U t s' else s')"
    by blast
next
  from sweep_states[OF assms, of U "tempurature s"] obtain ss s' where
    a: "sweep U (tempurature s) s = Inr s'" "successive_attempts U (tempurature s) ss"
      "length ss = Suc (nat (dimensions s) * nat (dimensions s))" "ss ! 0 = s"
      "ss ! (nat (dimensions s) * nat (dimensions s)) = s'" by blast
  have "anim_func U s = Inr (s'\<lparr>effects := effects s' @ [Frame_drawn (cells s')]\<rparr>)"
    by (simp add: anim_func_def a(1))
  with a show "\<exists>ss s'. successive_attempts U (tempurature s) ss \<and>
            length ss = Suc (nat (dimensions s) * nat (dimensions s)) \<and> ss ! 0 = s \<and>
            ss ! (nat (dimensions s) * nat (dimensions s)) = s' \<and>
            anim_func U s = Inr (s'\<lparr>effects := effects s' @ [Frame_drawn (cells s')]\<rparr>)"
    by blast
qed

text \<open>
  On the lattice of three by three spins whose generator always draws 4, the nine
  attempts of a sweep all draw the site \<open>(1, 1)\<close>: a sweep makes its \<open>N\<^sup>2\<close> attempts
  even when they touch one site only.
\<close>

theorem sweep_makes_N2_attempts_witness:
  "\<exists>ss s'. successive_attempts demo_utils (Scalar 2) ss \<and> length ss = 10 \<and>
     ss ! 0 = demo_lattice \<and> ss ! 9 = s' \<and>
     sweep demo_utils (Scalar 2) demo_lattice = Inr s' \<and>
     for_each (py_range 9) (\<lambda>j. counted (glauber_procedure demo_utils (Scalar 2))) (demo_lattice, 0)
       = Inr (s', 9) \<and>
     (\<forall>k<9. \<exists>outcome g.
        glauber_choice demo_utils (Scalar 2) (ss ! k) = Inr (1, 1, outcome, g) \<and>
        glauber_procedure demo_utils (Scalar 2) (ss ! k) = Inr (ss ! Suc k))"
proof -
  have dims: "dimensions demo_lattice = 3" by (simp add: demo_lattice_def)
  from sweep_makes_N2_attempts[OF demo_lattice_well_formed, of demo_utils "Scalar 2"]
  obtain ss s' where
    att: "successive_attempts demo_utils (Scalar 2) ss" and
    len: "length ss = Suc (nat (dimensions demo_lattice) * nat (dimensions demo_lattice))" and
    first: "ss ! 0 = demo_lattice" and
    final: "ss ! (nat (dimensions demo_lattice) * nat (dimensions demo_lattice)) = s'" and
    sw: "sweep demo_utils (Scalar 2) demo_lattice = Inr s'" and
    cnt: "for_each (py_range (dimensions demo_lattice ^ 2))
            (\<lambda>j. counted (glauber_procedure demo_utils (Scalar 2))) (demo_lattice, 0)
          = Inr (s', nat (dimensions demo_lattice) * nat (dimensions demo_lattice))"
    by blast
  have len': "length ss = 10" using len by (simp add: dims)
  have final': "ss ! 9 = s'" using final by (simp add: dims)
  have cnt': "for_each (py_range 9)
            (\<lambda>j. counted (glauber_procedure demo_utils (Scalar 2))) (demo_lattice, 0)
          = Inr (s', 9)" using cnt by (simp add: dims)
  have sites: "\<exists>outcome g.
        glauber_choice demo_utils (Scalar 2) (ss ! k) = Inr (1, 1, outcome, g) \<and>
        glauber_procedure demo_utils (Scalar 2) (ss ! k) = Inr (ss ! Suc k)" if "k < 9" for k
  proof -
    from that len' have k: "k < length ss" "Suc k < length ss" by simp_all
    from att k(2) have "update_attempt demo_utils (Scalar 2) (ss ! k) (ss ! Suc k)"
      by (simp add: successive_attempts_def)
    then have step: "glauber_procedure demo_utils (Scalar 2) (ss ! k) = Inr (ss ! Suc k)"
      unfolding update_attempt_def by blast
    from glauber_procedure_result[OF step] obtain row col outcome g where
      c: "glauber_choice demo_utils (Scalar 2) (ss ! k) = Inr (row, col, outcome, g)" by blast
    from demo_lattice_draws[OF att first k(1)] glauber_choice_site(2,3)[OF c]
    have "row = 1" "col = 1" by (simp_all add: demo_lattice_generator)
    with c step show ?thesis by blast
  qed
  from att len' first final' sw cnt' sites show ?thesis by blast
qed

subsection \<open>C7\<close>

text \<open>
  C7. An update attempt that returns has drawn one site \<open>(row, col)\<close> of the lattice.
  When the flip is accepted the lattice is the old one with \<open>flip_array_state\<close> of the
  old spin written at that site, which is its negation when \<open>flip_array_state\<close> negates;
  when it is rejected the lattice is unchanged. In both cases every other cell, the
  shape of the lattice and all attributes but the generator are as before.
\<close>

theorem attempt_changes_one_cell_at_most:
  assumes "glauber_procedure U temp s = Inr s'"
  shows "\<exists>row col outcome g.
           glauber_choice U temp s = Inr (row, col, outcome, g) \<and>
           in_lattice (cells s) row col \<and>
           (outcome \<longrightarrow>
              cells s' = lattice_set (cells s) row col (flip_array_state U (cells s ! row ! col)) \<and>
              cells s' ! row ! col = flip_array_state U (cells s ! row ! col) \<and>
              ((\<forall>v. flip_array_state U v = - v) \<longrightarrow>
                 cells s' ! row ! col = - (cells s ! row ! col))) \<and>
           (\<not> outcome \<longrightarrow> cells s' = cells s) \<and>
           (\<forall>a b. (a, b) \<noteq> (row, col) \<longrightarrow> cells s' ! a ! b = cells s ! a ! b) \<and>
           length (cells s') = length (cells s) \<and>
           (\<forall>a. length (cells s' ! a) = length (cells s ! a)) \<and>
           same_object s s'"
proof -
  from glauber_procedure_result[OF assms] obtain row col outcome g where
    c: "glauber_choice U temp s = Inr (row, col, outcome, g)" and
    s': "s' = (if outcome
                 then s\<lparr>cells := lattice_set (cells s) row col (flip_array_state U (cells s ! row ! col)),
                        np_random := g\<rparr>
                 else s\<lparr>np_random := g\<rparr>)" by blast
  have inl: "in_lattice (cells s) row col" by (rule glauber_choice_site(6)[OF c])
  have row_len: "length (lattice_set (cells s) row col v ! a) = length (cells s ! a)" for v a
    using inl by (cases "a = row") (simp_all add: lattice_set_def in_lattice_def)
  have "(outcome \<longrightarrow>
              cells s' = lattice_set (cells s) row col (flip_array_state U (cells s ! row ! col)) \<and>
              cells s' ! row ! col = flip_array_state U (cells s ! row ! col) \<and>
              ((\<forall>v. flip_array_state U v = - v) \<longrightarrow>
                 cells s' ! row ! col = - (cells s ! row ! col)))"
    by (simp add: s' lattice_set_nth[OF inl])
  moreover have "\<not> outcome \<longrightarrow> cells s' = cells s" by (simp add: s')
  moreover have "\<forall>a b. (a, b) \<noteq> (row, col) \<longrightarrow> cells s' ! a ! b = cells s ! a ! b"
    by (auto simp: s' lattice_set_nth[OF inl])
  moreover have "length (cells s') = length (cells s)"
    by (simp add: s' lattice_set_length)
  moreover have "\<forall>a. length (cells s' ! a) = length (cells s ! a)"
    by (simp add: s' row_len)
  moreover have "same_object s s'" by (simp add: s' same_object_def)
  ultimately show ?thesis using c inl by blast
qed

theorem attempt_changes_one_cell_at_most_witness:
  "\<exists>s' outcome g.
     glauber_procedure demo_utils (Scalar 2) demo_lattice = Inr s' \<and>
     glauber_choice demo_utils (Scalar 2) demo_lattice = Inr (1, 1, outcome, g) \<and>
     (cells s' = cells demo_lattice \<or>
      cells s' = lattice_set (cells demo_lattice) 1 1 (- (cells demo_lattice ! 1 ! 1))) \<and>
     cells s' ! 0 = [1, - 1, 1] \<and> cells s' ! 2 = [- 1, 1, 1] \<and>
     cells s' ! 1 ! 0 = 1 \<and> cells s' ! 1 ! 2 = - 1"
proof -
  note w = demo_lattice_well_formed
  have pos: "0 < dimensions demo_lattice" by (simp add: demo_lattice_def)
  from glauber_procedure_total[OF w pos, of demo_utils "Scalar 2"] obtain s' where
    s': "glauber_procedure demo_utils (Scalar 2) demo_lattice = Inr s'" by blast
  from attempt_changes_one_cell_at_most[OF s'] obtain row col outcome g where
    c: "glauber_choice demo_utils (Scalar 2) demo_lattice = Inr (row, col, outcome, g)" and
    acc: "outcome \<longrightarrow>
       cells s' = lattice_set (cells demo_lattice) row col
         (flip_array_state demo_utils (cells demo_lattice ! row ! col))" and
    rej: "\<not> outcome \<longrightarrow> cells s' = cells demo_lattice" and
    others: "\<forall>a b. (a, b) \<noteq> (row, col) \<longrightarrow> cells s' ! a ! b = cells demo_lattice ! a ! b" and
    len: "length (cells s') = length (cells demo_lattice)"
      "\<forall>a. length (cells s' ! a) = length (cells demo_lattice ! a)"
    by blast
  from glauber_choice_site(2,3)[OF c] have rc: "row = 1" "col = 1"
    by (simp_all add: demo_lattice_def)
  have alt: "cells s' = cells demo_lattice \<or>
      cells s' = lattice_set (cells demo_lattice) 1 1 (- (cells demo_lattice ! 1 ! 1))"
    using acc rej by (cases outcome) (simp_all add: rc demo_utils_def)
  have rows: "cells s' ! 0 = [1, - 1, 1]" "cells s' ! 2 = [- 1, 1, 1]"
    using alt by (auto simp: demo_lattice_def lattice_set_def)
  have cs: "cells s' ! 1 ! 0 = 1" "cells s' ! 1 ! 2 = - 1"
    using others by (simp_all add: rc demo_lattice_def)
  from s' c alt rows cs show ?thesis unfolding rc by blast
qed

subsection \<open>C6\<close>

text \<open>
  C6. When \<open>flip_array_state\<close> negates, every cell of every reachable lattice, that is
  after \<open>create_cells\<close> and after any sequence of update attempts, is \<open>+1\<close> or \<open>-1\<close>.
  So is every cell of the lattice that \<open>start_sim\<close> ends with, and \<open>anim_func\<close> keeps
  a lattice of spins one.
\<close>

theorem cells_stay_spins:
  assumes "\<forall>v. flip_array_state U v = - v"
  shows "(reachable U s \<longrightarrow>
            spins_ok (cells s) \<and>
            (\<forall>row col. in_lattice (cells s) row col \<longrightarrow>
               cells s ! row ! col = 1 \<or> cells s ! row ! col = - 1)) \<and>
         (\<forall>s'. start_sim U s = Inr s' \<longrightarrow> spins_ok (cells s')) \<and>
         (\<forall>s'. spins_ok (cells s) \<and> anim_func U s = Inr s' \<longrightarrow> spins_ok (cells s'))"
proof (intro conjI allI impI)
  assume "reachable U s"
  then show ok: "spins_ok (cells s)"
  proof (induction rule: reachable.induct)
    case (initialised s s')
    then show ?case by (rule create_cells_result(3))
  next
    case (attempted s temp s')
    from glauber_procedure_spins[OF attempted.hyps(2) attempted.IH] assms
    show ?case by simp
  qed
  fix row col
  assume "in_lattice (cells s) row col"
  with ok show "cells s ! row ! col = 1 \<or> cells s ! row ! col = - 1"
    by (simp add: spins_ok_def in_lattice_def list_all_length)
next
  fix s'
  assume "start_sim U s = Inr s'"
  from start_sim_spins[OF this] assms show "spins_ok (cells s')" by simp
next
  fix s'
  assume "spins_ok (cells s) \<and> anim_func U s = Inr s'"
  with anim_func_spins[of U s s'] assms show "spins_ok (cells s')" by simp
qed

theorem cells_stay_spins_witness:
  "(\<exists>s0 s1 s2.
     create_cells (demo_sim 3 10 ''visual'') = Inr s0 \<and>
     glauber_procedure demo_utils (Scalar 2) s0 = Inr s1 \<and>
     glauber_procedure demo_utils (Scalar 2) s1 = Inr s2 \<and>
     reachable demo_utils s2 \<and> spins_ok (cells s2)) \<and>
   (\<exists>s'. start_sim demo_utils (demo_sim 3 10 ''full'') = Inr s' \<and> spins_ok (cells s'))"
proof -
  have d: "0 \<le> dimensions (demo_sim 3 10 ''visual'')" by (simp add: demo_sim_def)
  from create_cells_total[OF d] obtain s0 where
    s0: "create_cells (demo_sim 3 10 ''visual'') = Inr s0" by blast
  note c = create_cells_result[OF s0]
  have p0: "0 < dimensions s0" using c(1) by (simp add: same_object_def demo_sim_def)
  from glauber_procedure_total[OF c(2) p0, of demo_utils "Scalar 2"] obtain s1 where
    s1: "glauber_procedure demo_utils (Scalar 2) s0 = Inr s1" by blast
  have p1: "0 < dimensions s1" using glauber_procedure_frame(1)[OF s1] p0 by simp
  from glauber_procedure_total[OF glauber_procedure_well_formed[OF s1 c(2)] p1, of demo_utils "Scalar 2"]
  obtain s2 where s2: "glauber_procedure demo_utils (Scalar 2) s1 = Inr s2" by blast
  have r: "reachable demo_utils s2"
    by (rule reachable.attempted[OF reachable.attempted[OF reachable.initialised[OF s0] s1] s2])
  have flip: "\<forall>v. flip_array_state demo_utils v = - v" by (simp add: demo_utils_def)
  from cells_stay_spins[OF flip, of s2] r have ok: "spins_ok (cells s2)" by blast
  have "py_lower (sim_type (demo_sim 3 10 ''full'')) \<noteq> ''visual''"
    "0 \<le> dimensions (demo_sim 3 10 ''full'')"
    using py_lower_full by (simp_all add: demo_sim_def)
  from start_sim_full_run[OF this, of demo_utils] obtain s' where
    s': "start_sim demo_utils (demo_sim 3 10 ''full'') = Inr s'" by blast
  with cells_stay_spins[OF flip, of "demo_sim 3 10 ''full''"]
  have full: "spins_ok (cells s')" by blast
  from s0 s1 s2 r ok s' full show ?thesis by blast
qed

subsection \<open>C9\<close>

text \<open>
  C9. Two full runs from the same state of the generator, with the same \<open>dimensions\<close>
  and \<open>timesteps\<close>, end alike: with the same error, or with the same records and the
  same state of the generator. Nothing else the objects hold at the start matters: not
  the mode string (when it is not the visual one), the temperature, an earlier lattice
  or earlier records.
\<close>

theorem same_seed_same_observables:
  assumes "py_lower (sim_type s1) \<noteq> ''visual''" and "py_lower (sim_type s2) \<noteq> ''visual''"
    and "dimensions s1 = dimensions s2" and "timesteps s1 = timesteps s2"
    and "np_random s1 = np_random s2"
  shows "map_sum id (\<lambda>s. (avg_qauntities s, np_random s)) (start_sim U s1) =
         map_sum id (\<lambda>s. (avg_qauntities s, np_random s)) (start_sim U s2)"
proof -
  have "rel_sum (=) same_inputs (start_sim U s1) (start_sim U s2)"
    unfolding start_sim_full[OF assms(1)] start_sim_full[OF assms(2)]
    by (rule start_full_sim_same_inputs) (simp_all add: assms)
  then show ?thesis
    by (cases rule: rel_sumE) (simp_all add: same_inputs_def)
qed

theorem same_seed_same_observables_witness:
  "map_sum id (\<lambda>s. (avg_qauntities s, np_random s))
     (start_sim demo_utils (demo_sim 3 120 ''full'')) =
   map_sum id (\<lambda>s. (avg_qauntities s, np_random s))
     (start_sim demo_utils
        ((demo_sim 3 120 ''batch'')\<lparr>tempurature := Scalar 4, cells := [[1]],
           avg_qauntities := [(1, 0, 0)]\<rparr>))"
proof -
  have "py_lower ''batch'' \<noteq> ''visual''" by (simp add: py_lower_def)
  with same_seed_same_observables[of "demo_sim 3 120 ''full''"
      "(demo_sim 3 120 ''batch'')\<lparr>tempurature := Scalar 4, cells := [[1]],
           avg_qauntities := [(1, 0, 0)]\<rparr>" demo_utils] py_lower_full
  show ?thesis by (simp add: demo_sim_def)
qed

end
